theory Spec2Isabelle
  imports Complex_Main "HOL-Library.AList" "HOL-Library.Char_ord" "HOL-Library.List_Lexorder"
    "HOL-Library.Multiset" "HOL-Library.Sublist"
begin

section \<open>ESMF timing summaries: the two timing.py scripts\<close>

text \<open>
  The repository holds two scripts that read an ESMF_Profile.summary table:
  \<^verbatim>\<open>run-cam/timing.py\<close> (children of a region, top-N ranking, optional optimized overlay)
  and \<^verbatim>\<open>timing/timing.py\<close> (a fixed list of timers, baseline against optimized).
  Definitions for the first keep the source's names; definitions for the second carry
  the prefix \<open>t_\<close>.

  Modelling conventions.
  \<^item> A document is the text that \<^verbatim>\<open>Path(path).read_text(errors="replace")\<close> returned;
    reading the file is outside the model. Characters are code points below 256.
  \<^item> Python floats are modelled as exact reals: \<^verbatim>\<open>float("12.5")\<close> is the decimal
    value of the digits; rounding, overflow to infinity and NaN arithmetic are not
    modelled. The one NaN the code writes itself (the share of a parent whose mean is
    not positive) is the constructor \<open>NaN\<close>.
  \<^item> Row dictionaries are heap objects: a heap is a list of rows and a reference is a
    position in it, so that the in-place update of a row is visible through every list
    that holds the same reference.
\<close>

subsection \<open>Python library functions used by the scripts\<close>

text \<open>Whitespace as \<^verbatim>\<open>\s\<close> and \<^verbatim>\<open>str.strip\<close> see it, for code points below 256.\<close>

definition is_space :: "char \<Rightarrow> bool" where
  "is_space c = (c \<in> set [CHR 0x09, CHR 0x0A, CHR 0x0B, CHR 0x0C, CHR 0x0D, CHR 0x1C,
     CHR 0x1D, CHR 0x1E, CHR 0x1F, CHR 0x20, CHR 0x85, CHR 0xA0])"

definition is_digit :: "char \<Rightarrow> bool" where
  "is_digit c = (c \<in> set ''0123456789'')"

text \<open>Line boundaries of \<^verbatim>\<open>str.splitlines\<close>; \<^verbatim>\<open>\r\n\<close> counts as one boundary.\<close>

definition is_linebreak :: "char \<Rightarrow> bool" where
  "is_linebreak c = (c \<in> set [CHR 0x0A, CHR 0x0B, CHR 0x0C, CHR 0x0D, CHR 0x1C, CHR 0x1D,
     CHR 0x1E, CHR 0x85])"

fun splitlines_from :: "string \<Rightarrow> string \<Rightarrow> string list" where
  "splitlines_from cur [] = (if cur = [] then [] else [cur])"
| "splitlines_from cur (c # cs) =
     (if c = CHR 0x0D \<and> cs \<noteq> [] \<and> hd cs = CHR 0x0A then cur # splitlines_from [] (tl cs)
      else if is_linebreak c then cur # splitlines_from [] cs
      else splitlines_from (cur @ [c]) cs)"

definition splitlines :: "string \<Rightarrow> string list" where
  "splitlines text = splitlines_from [] text"

definition strip :: "string \<Rightarrow> string" where
  "strip s = rev (dropWhile is_space (rev (dropWhile is_space s)))"

definition digit_val :: "char \<Rightarrow> nat" where
  "digit_val c = of_char c - 48"

definition digits_val :: "string \<Rightarrow> nat" where
  "digits_val s = foldl (\<lambda>a c. 10 * a + digit_val c) 0 s"

text \<open>\<^verbatim>\<open>int(s)\<close> and \<^verbatim>\<open>float(s)\<close> on the strings the pattern lets through:
  a digit sequence, and digits, a dot, digits.\<close>

definition py_int :: "string \<Rightarrow> int" where
  "py_int s = int (digits_val s)"

definition py_float :: "string \<Rightarrow> real" where
  "py_float s =
     (let ip = takeWhile (\<lambda>c. c \<noteq> CHR ''.'') s;
          fp = drop (Suc (length ip)) s
      in real (digits_val ip) + real (digits_val fp) / 10 ^ length fp)"

text \<open>\<^verbatim>\<open>sorted(xs, key=k, reverse=True)\<close>: CPython reverses the list, sorts it stably in
  ascending key order and reverses the result.\<close>

definition py_sorted_reverse :: "('a \<Rightarrow> 'k::linorder) \<Rightarrow> 'a list \<Rightarrow> 'a list" where
  "py_sorted_reverse k xs = rev (sort_key k (rev xs))"

text \<open>The slice \<^verbatim>\<open>xs[:n]\<close>: a negative \<open>n\<close> counts from the end.\<close>

definition slice_to :: "'a list \<Rightarrow> int \<Rightarrow> 'a list" where
  "slice_to xs n = (if 0 \<le> n then take (nat n) xs else take (length xs - nat (- n)) xs)"

text \<open>A dictionary with string keys keeps its keys in insertion order; assigning to a
  key that is present replaces the value in place.\<close>

type_synonym 'v dict = "(string \<times> 'v) list"

definition dict_set :: "string \<Rightarrow> 'v \<Rightarrow> 'v dict \<Rightarrow> 'v dict" where
  "dict_set k v d = AList.update k v d"

definition dict_get :: "'v dict \<Rightarrow> string \<Rightarrow> 'v option" where
  "dict_get d k = map_of d k"

subsection \<open>The line pattern\<close>

text \<open>
  The regular expression of \<^verbatim>\<open>parse_esmf_summary\<close> is kept as a syntax tree and run by a
  backtracking matcher: \<open>rx_run r s cs\<close> lists, in the order a backtracking engine tries
  them, the ways \<open>r\<close> can match a prefix of \<open>s\<close>, each with the rest of the input and
  the groups captured so far. The first entry is the match \<^verbatim>\<open>re\<close> reports.
\<close>

datatype cclass = Space | NonSpace | Digit | AnyChar | Lit char

fun in_class :: "cclass \<Rightarrow> char \<Rightarrow> bool" where
  "in_class Space c = is_space c"
| "in_class NonSpace c = (\<not> is_space c)"
| "in_class Digit c = is_digit c"
| "in_class AnyChar c = (c \<noteq> CHR 0x0A)"
| "in_class (Lit d) c = (c = d)"

datatype rx = Eps | Atom cclass | Seq rx rx | Alt rx rx | Star cclass | Plus cclass
  | LazyStar cclass | Opt rx | Grp string rx | Dollar

type_synonym caps = "(string \<times> string) list"

fun rx_run :: "rx \<Rightarrow> string \<Rightarrow> caps \<Rightarrow> (string \<times> caps) list" where
  "rx_run Eps s cs = [(s, cs)]"
| "rx_run (Atom c) s cs =
     (case s of [] \<Rightarrow> [] | x # xs \<Rightarrow> if in_class c x then [(xs, cs)] else [])"
| "rx_run (Seq a b) s cs = concat (map (\<lambda>(s', cs'). rx_run b s' cs') (rx_run a s cs))"
| "rx_run (Alt a b) s cs = rx_run a s cs @ rx_run b s cs"
| "rx_run (Star c) s cs =
     map (\<lambda>n. (drop n s, cs)) (rev [0 ..< Suc (length (takeWhile (in_class c) s))])"
| "rx_run (Plus c) s cs =
     map (\<lambda>n. (drop n s, cs)) (rev [1 ..< Suc (length (takeWhile (in_class c) s))])"
| "rx_run (LazyStar c) s cs =
     map (\<lambda>n. (drop n s, cs)) [0 ..< Suc (length (takeWhile (in_class c) s))]"
| "rx_run (Opt r) s cs = rx_run r s cs @ [(s, cs)]"
| "rx_run (Grp n r) s cs =
     map (\<lambda>(s', cs'). (s', (n, take (length s - length s') s) # cs')) (rx_run r s cs)"
| "rx_run Dollar s cs = (if s = [] \<or> s = [CHR 0x0A] then [(s, cs)] else [])"

definition seqs :: "rx list \<Rightarrow> rx" where
  "seqs rs = foldr Seq rs Eps"

definition lits :: "string \<Rightarrow> rx" where
  "lits s = seqs (map (\<lambda>c. Atom (Lit c)) s)"

definition decimal :: rx where
  "decimal = seqs [Plus Digit, Atom (Lit CHR ''.''), Plus Digit]"

definition pat :: rx where
  "pat = seqs [
     Grp ''indent'' (Star Space),
     Grp ''name'' (Alt (seqs [Atom NonSpace, LazyStar AnyChar, Atom NonSpace]) (Atom NonSpace)),
     Plus Space,
     Opt (seqs [Grp ''PETs'' (Plus Digit), Plus Space, Grp ''PEs'' (Plus Digit), Plus Space]),
     Grp ''count'' (Alt (lits ''MULTIPLE'') (Plus Digit)), Plus Space,
     Grp ''mean'' decimal, Plus Space,
     Grp ''min'' decimal, Plus Space,
     Grp ''minpet'' (Plus Digit), Plus Space,
     Grp ''max'' decimal, Plus Space,
     Grp ''maxpet'' (Plus Digit), Star Space, Dollar]"

text \<open>\<^verbatim>\<open>pat.match(line)\<close> with \<^verbatim>\<open>m.groupdict()\<close>: \<open>None\<close> when the line does not match;
  a group that took no part in the match is absent from the captures.\<close>

definition pat_match :: "string \<Rightarrow> caps option" where
  "pat_match line = (case rx_run pat line [] of [] \<Rightarrow> None | (s', cs) # _ \<Rightarrow> Some cs)"

definition grp :: "caps \<Rightarrow> string \<Rightarrow> string" where
  "grp g n = (case map_of g n of None \<Rightarrow> [] | Some s \<Rightarrow> s)"

subsection \<open>run-cam/timing.py: rows, heap and parser\<close>

datatype pyfloat = Num real | NaN

datatype error = RuntimeError string | SystemExit string "string list" | IndexError
  | KeyError string

text \<open>A row dictionary. The last field is the key \<^verbatim>\<open>"% of parent (mean)"\<close>, absent
  (\<open>None\<close>) in a row as the parser builds it.\<close>

record row =
  indent :: nat
  region :: string
  PETs :: "int option"
  PEs :: "int option"
  Count :: "int option"
  Mean_s :: real
  Min_s :: real
  Min_PET :: int
  Max_s :: real
  Max_PET :: int
  pct_of_parent_mean :: "pyfloat option"

type_synonym ref = nat
type_synonym heap = "row list"

definition mk_row :: "caps \<Rightarrow> row" where
  "mk_row g = \<lparr>
     indent = length (grp g ''indent''),
     region = strip (grp g ''name''),
     PETs = (if grp g ''PETs'' \<noteq> [] then Some (py_int (grp g ''PETs'')) else None),
     PEs = (if grp g ''PEs'' \<noteq> [] then Some (py_int (grp g ''PEs'')) else None),
     Count = (if grp g ''count'' = ''MULTIPLE'' then None else Some (py_int (grp g ''count''))),
     Mean_s = py_float (grp g ''mean''),
     Min_s = py_float (grp g ''min''),
     Min_PET = py_int (grp g ''minpet''),
     Max_s = py_float (grp g ''max''),
     Max_PET = py_int (grp g ''maxpet''),
     pct_of_parent_mean = None \<rparr>"

fun scan_lines :: "string list \<Rightarrow> row list" where
  "scan_lines [] = []"
| "scan_lines (line # lines) =
     (case pat_match line of None \<Rightarrow> scan_lines lines
      | Some g \<Rightarrow> mk_row g # scan_lines lines)"

text \<open>The parser allocates one fresh row per matching line, in line order, and returns
  the list of their references with the extended heap.\<close>

definition parse_esmf_summary :: "heap \<Rightarrow> string \<Rightarrow> error + (ref list \<times> heap)" where
  "parse_esmf_summary h text =
     (let rows = scan_lines (splitlines text)
      in if rows = []
         then Inl (RuntimeError ''No Region rows parsed. Is this an ESMF_Profile.summary file?'')
         else Inr ([length h ..< length h + length rows], h @ rows))"

fun find_from :: "heap \<Rightarrow> string \<Rightarrow> nat \<Rightarrow> ref list \<Rightarrow> (ref \<times> nat) option" where
  "find_from h name i [] = None"
| "find_from h name i (r # rs) =
     (if region (h ! r) = name then Some (r, i) else find_from h name (Suc i) rs)"

definition find_region_rows :: "heap \<Rightarrow> ref list \<Rightarrow> string \<Rightarrow> (ref \<times> nat) option" where
  "find_region_rows h rows name = find_from h name 0 rows"

fun collect_loop :: "heap \<Rightarrow> nat \<Rightarrow> ref list \<Rightarrow> ref list" where
  "collect_loop h parent_indent [] = []"
| "collect_loop h parent_indent (r # rs) =
     (if indent (h ! r) \<le> parent_indent then [] else r # collect_loop h parent_indent rs)"

text \<open>\<open>parent_idx\<close> comes from \<^verbatim>\<open>enumerate\<close>, so it is a natural number; past the end of
  \<open>rows\<close> the read \<^verbatim>\<open>rows[parent_idx]\<close> raises.\<close>

definition collect_children :: "heap \<Rightarrow> ref list \<Rightarrow> nat \<Rightarrow> error + ref list" where
  "collect_children h rows parent_idx =
     (if parent_idx < length rows
      then Inr (collect_loop h (indent (h ! (rows ! parent_idx))) (drop (Suc parent_idx) rows))
      else Inl IndexError)"

fun build_region_map_from :: "heap \<Rightarrow> ref dict \<Rightarrow> ref list \<Rightarrow> ref dict" where
  "build_region_map_from h m [] = m"
| "build_region_map_from h m (r # rs) = build_region_map_from h (dict_set (region (h ! r)) r m) rs"

definition build_region_map :: "heap \<Rightarrow> ref list \<Rightarrow> ref dict" where
  "build_region_map h rows = build_region_map_from h [] rows"

subsection \<open>run-cam/timing.py: main\<close>

text \<open>The command line. \<open>summary\<close> and \<open>optimized_summary\<close> stand for the text of the
  named files; \<open>optimized_summary = None\<close> is the option left out or given an empty
  path, which \<^verbatim>\<open>if args.optimized_summary:\<close> treats alike. \<open>csv\<close> and \<open>png\<close> are
  output paths, used only when given and not empty.\<close>

record args =
  summary :: string
  region_arg :: "string option"
  top :: int
  csv :: "string option"
  png :: "string option"
  optimized_summary :: "string option"

definition ANNOTATE_THRESHOLD_PCT :: real where
  "ANNOTATE_THRESHOLD_PCT = 5"

datatype direction = faster | slower

text \<open>The optimized keys of a CSV row, and the row. \<open>optimized = None\<close> is a row that was
  never given those keys.\<close>

record opt_part =
  optimized_mean_s :: real
  optimized_min_s :: real
  optimized_max_s :: real
  optimized_count :: "int option"
  optimized_PETs :: "int option"
  optimized_PEs :: "int option"
  speedup_base_over_opt :: "real option"

record row_out =
  csv_region :: string
  baseline_mean_s :: real
  baseline_min_s :: real
  baseline_max_s :: real
  baseline_count :: "int option"
  baseline_PETs :: "int option"
  baseline_PEs :: "int option"
  optimized :: "opt_part option"

text \<open>What the script prints, as data: the message of an early return, the warning on
  stderr, the table header, a table line (the optimized columns are \<open>None\<close> where the
  script prints dashes) and the two file notices.\<close>

datatype out_line =
    NoChildren string
  | WarnRegionNotFound string
  | Header string real int bool
  | TableLine string real real real "(real \<times> real \<times> real \<times> real option) option"
  | WroteCSV string
  | WrotePNG string

record result =
  exit_code :: int
  final_heap :: heap
  printed :: "out_line list"
  csv_rows :: "row_out list"
  labels :: "string list"
  base_means :: "real list"
  base_xerr_low :: "real list"
  base_xerr_high :: "real list"
  opt_means :: "real option list"
  annotations :: "(string \<times> real \<times> direction) list"

text \<open>\<^verbatim>\<open>if args.csv:\<close> and \<^verbatim>\<open>if args.png:\<close>: a path that is given and not empty.\<close>

definition truthy :: "string option \<Rightarrow> bool" where
  "truthy p = (case p of None \<Rightarrow> False | Some s \<Rightarrow> s \<noteq> [])"

definition notice :: "(string \<Rightarrow> out_line) \<Rightarrow> string option \<Rightarrow> out_line list" where
  "notice f p = (case p of None \<Rightarrow> [] | Some s \<Rightarrow> if s = [] then [] else [f s])"

text \<open>Line 108: the default region.\<close>

definition choose_region :: "heap \<Rightarrow> ref list \<Rightarrow> string option \<Rightarrow> error + string" where
  "choose_region h base_rows r =
     (case r of Some name \<Rightarrow> Inr name
      | None \<Rightarrow>
          if list_ex (\<lambda>r. region (h ! r) = ''dyn_run'') base_rows then Inr ''dyn_run''
          else (case base_rows of [] \<Rightarrow> Inl IndexError | r0 # _ \<Rightarrow> Inr (region (h ! r0))))"

text \<open>Line 112: the names shown when the region is missing from the baseline.\<close>

definition examples :: "heap \<Rightarrow> ref list \<Rightarrow> string list" where
  "examples h base_rows = sort (remdups (map (\<lambda>r. region (h ! r)) (take 30 base_rows)))"

text \<open>Lines 119 to 121: the share of the parent, written into each child's row.\<close>

definition share_of_parent :: "real \<Rightarrow> real \<Rightarrow> pyfloat" where
  "share_of_parent pmean m = (if pmean > 0 then Num (100 * (m / pmean)) else NaN)"

fun set_shares :: "real \<Rightarrow> ref list \<Rightarrow> heap \<Rightarrow> heap" where
  "set_shares pmean [] h = h"
| "set_shares pmean (r # rs) h =
     set_shares pmean rs
       (h[r := (h ! r)\<lparr>pct_of_parent_mean := Some (share_of_parent pmean (Mean_s (h ! r)))\<rparr>])"

text \<open>Line 124: rank by mean, descending, and keep the first \<open>top\<close>.\<close>

definition rank_children :: "heap \<Rightarrow> ref list \<Rightarrow> int \<Rightarrow> ref list" where
  "rank_children h base_children n =
     slice_to (py_sorted_reverse (\<lambda>r. Mean_s (h ! r)) base_children) n"

text \<open>Lines 127 to 133: the registry of the optimized document. A region missing from
  that document only prints a warning.\<close>

definition load_optimized ::
  "heap \<Rightarrow> string \<Rightarrow> string option \<Rightarrow> error + (ref dict \<times> heap \<times> out_line list)" where
  "load_optimized h name opt =
     (case opt of None \<Rightarrow> Inr ([], h, [])
      | Some text \<Rightarrow>
          (case parse_esmf_summary h text of Inl e \<Rightarrow> Inl e
           | Inr (opt_rows, h') \<Rightarrow>
               Inr (build_region_map h' opt_rows, h',
                    (case find_region_rows h' opt_rows name of
                       None \<Rightarrow> [WarnRegionNotFound name] | Some _ \<Rightarrow> []))))"

text \<open>Line 179.\<close>

definition speedup_of :: "real \<Rightarrow> real \<Rightarrow> real option" where
  "speedup_of base_mean opt_mean =
     (if opt_mean \<noteq> 0 \<and> opt_mean > 0 then Some (base_mean / opt_mean) else None)"

text \<open>Lines 153 to 198, one pass of the loop: the CSV row, the entry of \<open>opt_means\<close> and
  the printed line of one selected child.\<close>

definition counterpart :: "bool \<Rightarrow> ref dict \<Rightarrow> string \<Rightarrow> ref option" where
  "counterpart given opt_map name = (if given then dict_get opt_map name else None)"

definition row_out_of :: "heap \<Rightarrow> bool \<Rightarrow> ref dict \<Rightarrow> ref \<Rightarrow> row_out" where
  "row_out_of h given opt_map r =
     \<lparr> csv_region = region (h ! r),
       baseline_mean_s = Mean_s (h ! r),
       baseline_min_s = Min_s (h ! r),
       baseline_max_s = Max_s (h ! r),
       baseline_count = Count (h ! r),
       baseline_PETs = PETs (h ! r),
       baseline_PEs = PEs (h ! r),
       optimized =
         (case counterpart given opt_map (region (h ! r)) of
            None \<Rightarrow> None
          | Some o_ref \<Rightarrow> Some
              \<lparr> optimized_mean_s = Mean_s (h ! o_ref),
                optimized_min_s = Min_s (h ! o_ref),
                optimized_max_s = Max_s (h ! o_ref),
                optimized_count = Count (h ! o_ref),
                optimized_PETs = PETs (h ! o_ref),
                optimized_PEs = PEs (h ! o_ref),
                speedup_base_over_opt = speedup_of (Mean_s (h ! r)) (Mean_s (h ! o_ref)) \<rparr>) \<rparr>"

definition opt_mean_of :: "heap \<Rightarrow> bool \<Rightarrow> ref dict \<Rightarrow> ref \<Rightarrow> real option" where
  "opt_mean_of h given opt_map r =
     (case counterpart given opt_map (region (h ! r)) of
        Some o_ref \<Rightarrow> Some (Mean_s (h ! o_ref))
      | None \<Rightarrow> if given then None else Some 0)"

definition table_line_of :: "heap \<Rightarrow> bool \<Rightarrow> ref dict \<Rightarrow> ref \<Rightarrow> out_line list" where
  "table_line_of h given opt_map r =
     (case counterpart given opt_map (region (h ! r)) of
        Some o_ref \<Rightarrow>
          [TableLine (take 40 (region (h ! r))) (Mean_s (h ! r)) (Min_s (h ! r)) (Max_s (h ! r))
             (Some (Mean_s (h ! o_ref), Min_s (h ! o_ref), Max_s (h ! o_ref),
                    speedup_of (Mean_s (h ! r)) (Mean_s (h ! o_ref))))]
      | None \<Rightarrow>
          if given
          then [TableLine (take 40 (region (h ! r))) (Mean_s (h ! r)) (Min_s (h ! r))
                  (Max_s (h ! r)) None]
          else [])"

text \<open>Lines 231 to 251: the annotations of the plot. \<^verbatim>\<open>labels.index(lbl)\<close> is the first
  position of the label, so the optimized value of a label is the first one recorded
  under that name; a missing value is plotted as NaN and skipped.\<close>

definition annotate :: "real \<Rightarrow> real option \<Rightarrow> (real \<times> direction) option" where
  "annotate base_val opt_val =
     (case opt_val of None \<Rightarrow> None
      | Some v \<Rightarrow>
          if base_val \<noteq> 0 \<and> base_val > 0
          then (let pct = (base_val - v) / base_val * 100
                in if \<bar>pct\<bar> \<ge> ANNOTATE_THRESHOLD_PCT
                   then Some (\<bar>pct\<bar>, if pct > 0 then faster else slower)
                   else None)
          else None)"

definition opt_vals_plot :: "string list \<Rightarrow> real option list \<Rightarrow> string list \<Rightarrow> real option list" where
  "opt_vals_plot lbls opts labs_for_plot =
     map (\<lambda>lbl. case map_of (zip lbls opts) lbl of None \<Rightarrow> None | Some v \<Rightarrow> v) labs_for_plot"

definition plot_annotations ::
  "string list \<Rightarrow> real list \<Rightarrow> real option list \<Rightarrow> (string \<times> real \<times> direction) list" where
  "plot_annotations lbls means opts =
     (let means_for_plot = rev means;
          labs_for_plot = rev lbls
      in concat (map (\<lambda>(lbl, base_val, opt_val).
                        case annotate base_val opt_val of None \<Rightarrow> []
                        | Some (p, d) \<Rightarrow> [(lbl, p, d)])
           (zip labs_for_plot (zip means_for_plot (opt_vals_plot lbls opts labs_for_plot)))))"

text \<open>Lines 119 to 263: the report on a region that has children.\<close>

definition report ::
  "args \<Rightarrow> string \<Rightarrow> heap \<Rightarrow> ref \<Rightarrow> ref list \<Rightarrow> error + result" where
  "report a name h1 parent base_children =
     (let pmean = Mean_s (h1 ! parent);
          h2 = set_shares pmean base_children h1;
          base_children_sorted = rank_children h2 base_children (top a);
          given = (optimized_summary a \<noteq> None)
      in case load_optimized h2 name (optimized_summary a) of
           Inl e \<Rightarrow> Inl e
         | Inr (opt_map, h3, warning) \<Rightarrow>
             (let lbls = map (\<lambda>r. region (h3 ! r)) base_children_sorted;
                  means = map (\<lambda>r. Mean_s (h3 ! r)) base_children_sorted;
                  opts = map (opt_mean_of h3 given opt_map) base_children_sorted
              in Inr \<lparr>
                   exit_code = 0,
                   final_heap = h3,
                   printed = warning @ [Header name pmean (top a) given]
                     @ concat (map (table_line_of h3 given opt_map) base_children_sorted)
                     @ notice WroteCSV (csv a) @ notice WrotePNG (png a),
                   csv_rows = map (row_out_of h3 given opt_map) base_children_sorted,
                   labels = lbls,
                   base_means = means,
                   base_xerr_low =
                     map (\<lambda>r. max 0 (Mean_s (h3 ! r) - Min_s (h3 ! r))) base_children_sorted,
                   base_xerr_high =
                     map (\<lambda>r. max 0 (Max_s (h3 ! r) - Mean_s (h3 ! r))) base_children_sorted,
                   opt_means = opts,
                   annotations =
                     (if truthy (png a) \<and> given then plot_annotations lbls means opts else [])
                 \<rparr>))"

definition no_children :: "string \<Rightarrow> heap \<Rightarrow> result" where
  "no_children name h =
     \<lparr> exit_code = 0, final_heap = h, printed = [NoChildren name], csv_rows = [],
       labels = [], base_means = [], base_xerr_low = [], base_xerr_high = [],
       opt_means = [], annotations = [] \<rparr>"

definition main :: "args \<Rightarrow> error + result" where
  "main a =
     (case parse_esmf_summary [] (summary a) of Inl e \<Rightarrow> Inl e
      | Inr (base_rows, h1) \<Rightarrow>
          (case choose_region h1 base_rows (region_arg a) of Inl e \<Rightarrow> Inl e
           | Inr name \<Rightarrow>
               (case find_region_rows h1 base_rows name of
                  None \<Rightarrow> Inl (SystemExit name (examples h1 base_rows))
                | Some (parent, pidx) \<Rightarrow>
                    (case collect_children h1 base_rows pidx of Inl e \<Rightarrow> Inl e
                     | Inr base_children \<Rightarrow>
                         if base_children = [] then Inr (no_children name h1)
                         else report a name h1 parent base_children))))"

subsection \<open>timing/timing.py\<close>

text \<open>This script keeps five keys of a row and never updates a row, so its rows are
  plain values. Its parser has the same pattern and no check on the number of rows.\<close>

record t_row =
  t_indent :: nat
  t_region :: string
  t_Mean_s :: real
  t_Min_s :: real
  t_Max_s :: real

definition t_mk_row :: "caps \<Rightarrow> t_row" where
  "t_mk_row g = \<lparr>
     t_indent = length (grp g ''indent''),
     t_region = strip (grp g ''name''),
     t_Mean_s = py_float (grp g ''mean''),
     t_Min_s = py_float (grp g ''min''),
     t_Max_s = py_float (grp g ''max'') \<rparr>"

fun t_scan_lines :: "string list \<Rightarrow> t_row list" where
  "t_scan_lines [] = []"
| "t_scan_lines (line # lines) =
     (case pat_match line of None \<Rightarrow> t_scan_lines lines
      | Some g \<Rightarrow> t_mk_row g # t_scan_lines lines)"

definition t_parse_esmf_summary :: "string \<Rightarrow> t_row list" where
  "t_parse_esmf_summary text = t_scan_lines (splitlines text)"

definition extract_named_regions :: "t_row list \<Rightarrow> string list \<Rightarrow> t_row list" where
  "extract_named_regions rows names = filter (\<lambda>row. t_region row \<in> set names) rows"

text \<open>The comprehension \<^verbatim>\<open>{r["region"]: r for r in rows}\<close>.\<close>

definition t_by_region :: "t_row list \<Rightarrow> t_row dict" where
  "t_by_region rows = foldl (\<lambda>m r. dict_set (t_region r) r m) [] rows"

text \<open>The command line, without the options that only style the plot. As above, the
  two documents are given by their text.\<close>

record t_args =
  baseline :: string
  t_optimized_summary :: "string option"
  timers :: "string list"
  timers_names_on_plot :: "string list option"
  annotate_threshold :: real

text \<open>\<^verbatim>\<open>[d[r]["Mean (s)"] for r in args.timers]\<close> reads every timer and raises at the first
  one that the dictionary lacks.\<close>

fun t_lookup_all :: "t_row dict \<Rightarrow> string list \<Rightarrow> error + t_row list" where
  "t_lookup_all d [] = Inr []"
| "t_lookup_all d (k # ks) =
     (case dict_get d k of None \<Rightarrow> Inl (KeyError k)
      | Some r \<Rightarrow> (case t_lookup_all d ks of Inl e \<Rightarrow> Inl e | Inr rs \<Rightarrow> Inr (r # rs)))"

text \<open>Lines 102 to 109: the label of one timer.\<close>

definition t_annotate :: "real \<Rightarrow> real \<Rightarrow> real \<Rightarrow> (real \<times> direction) option" where
  "t_annotate threshold base opt =
     (if base > 0 \<and> opt > 0
      then (let pct = 100 * (base - opt) / base
            in if \<bar>pct\<bar> \<ge> threshold
               then Some (\<bar>pct\<bar>, if pct > 0 then faster else slower)
               else None)
      else None)"

text \<open>Lines 99 to 118: the loop over \<^verbatim>\<open>enumerate(labels)\<close>; \<^verbatim>\<open>base_means[i]\<close> raises when
  there are more labels than timers.\<close>

fun t_annotate_loop ::
  "real \<Rightarrow> real list \<Rightarrow> real list \<Rightarrow> nat \<Rightarrow> string list \<Rightarrow> error + (nat \<times> real \<times> direction) list" where
  "t_annotate_loop threshold bm om i [] = Inr []"
| "t_annotate_loop threshold bm om i (label # rest) =
     (if i < length bm \<and> i < length om
      then (case t_annotate_loop threshold bm om (Suc i) rest of Inl e \<Rightarrow> Inl e
            | Inr anns \<Rightarrow>
                Inr ((case t_annotate threshold (bm ! i) (om ! i) of None \<Rightarrow> []
                      | Some (p, d) \<Rightarrow> [(i, p, d)]) @ anns))
      else Inl IndexError)"

record t_result =
  t_labels :: "string list"
  t_base_means :: "real list"
  t_base_lows :: "real list"
  t_base_highs :: "real list"
  t_opt_means :: "real list option"
  t_annotations :: "(nat \<times> real \<times> direction) list"

definition t_main :: "t_args \<Rightarrow> error + t_result" where
  "t_main a =
     (let base_rows = t_parse_esmf_summary (baseline a);
          opt_rows = (case t_optimized_summary a of None \<Rightarrow> []
                      | Some text \<Rightarrow> t_parse_esmf_summary text);
          base_data = t_by_region (extract_named_regions base_rows (timers a));
          opt_data = (if opt_rows \<noteq> [] then t_by_region (extract_named_regions opt_rows (timers a))
                      else []);
          lbls = (case timers_names_on_plot a of None \<Rightarrow> timers a
                  | Some ns \<Rightarrow> if ns = [] then timers a else ns)
      in case t_lookup_all base_data (timers a) of Inl e \<Rightarrow> Inl e
         | Inr bs \<Rightarrow>
             (let bm = map t_Mean_s bs;
                  res = \<lparr> t_labels = lbls, t_base_means = bm,
                          t_base_lows = map (\<lambda>r. t_Mean_s r - t_Min_s r) bs,
                          t_base_highs = map (\<lambda>r. t_Max_s r - t_Mean_s r) bs,
                          t_opt_means = None, t_annotations = [] \<rparr>
              in if opt_data \<noteq> []
                 then (case t_lookup_all opt_data (timers a) of Inl e \<Rightarrow> Inl e
                       | Inr os \<Rightarrow>
                           (case t_annotate_loop (annotate_threshold a) bm (map t_Mean_s os) 0 lbls of
                              Inl e \<Rightarrow> Inl e
                            | Inr anns \<Rightarrow>
                                Inr (res\<lparr> t_opt_means := Some (map t_Mean_s os),
                                          t_annotations := anns \<rparr>)))
                 else Inr res))"

subsection \<open>Sample documents\<close>

text \<open>A baseline table with a header line, a region \<open>A\<close> with the children \<open>B\<close>, \<open>C\<close>
  and \<open>E\<close>, and a following region \<open>D\<close>; the statistics of \<open>C\<close> are out of order
  (min above mean above max). An optimized table in which \<open>C\<close> is missing and \<open>E\<close> took
  no time, and a table that does not contain the region \<open>A\<close> at all.\<close>

definition sample_baseline :: string where
  "sample_baseline =
     ''Region  Count  Mean (s)  Min (s)  Min PET  Max (s)  Max PET'' @ [CHR 0x0A] @
     ''A 1 10.0 10.0 0 10.0 0'' @ [CHR 0x0A] @
     ''  B 1 6.0 5.0 0 7.0 1'' @ [CHR 0x0A] @
     ''  C 1 9.0 9.5 0 8.5 1'' @ [CHR 0x0A] @
     ''  E 1 2.0 2.0 0 2.0 0'' @ [CHR 0x0A] @
     ''D 1 1.0 1.0 0 1.0 0'' @ [CHR 0x0A]"

definition sample_optimized :: string where
  "sample_optimized =
     ''A 1 8.0 8.0 0 8.0 0'' @ [CHR 0x0A] @
     ''  B 1 3.0 3.0 0 3.0 0'' @ [CHR 0x0A] @
     ''  E 1 0.0 0.0 0 0.0 0'' @ [CHR 0x0A]"

definition sample_other :: string where
  "sample_other =
     ''X 1 8.0 8.0 0 8.0 0'' @ [CHR 0x0A] @
     ''  B 1 3.0 3.0 0 3.0 0'' @ [CHR 0x0A]"

text \<open>A text without a single timing line.\<close>

definition sample_unrecognized :: string where
  "sample_unrecognized =
     ''Region  Count  Mean (s)  Min (s)  Min PET  Max (s)  Max PET'' @ [CHR 0x0A] @
     ''no timing rows in this file'' @ [CHR 0x0A]"

section \<open>Properties\<close>

subsection \<open>Children of a region\<close>

lemma collect_loop_takeWhile:
  "collect_loop h p rs = takeWhile (\<lambda>r. indent (h ! r) > p) rs"
  by (induction rs) auto

text \<open>
  Claim C4. For a parent position inside the sequence, \<open>collect_children\<close> returns
  without error the run of \<open>n\<close> records that starts right after the parent, for the
  \<open>n\<close> such that each of these records is indented more deeply than the parent and the
  record after the run, when there is one, is indented at most as deeply as the parent.
  The run may be empty (\<open>n = 0\<close>).
\<close>

theorem collect_children_maximal_run:
  assumes "parent_idx < length rows"
  shows "\<exists>n. collect_children h rows parent_idx = Inr (take n (drop (Suc parent_idx) rows))
     \<and> Suc parent_idx + n \<le> length rows
     \<and> (\<forall>j < n. indent (h ! (rows ! (Suc parent_idx + j))) > indent (h ! (rows ! parent_idx)))
     \<and> (Suc parent_idx + n < length rows \<longrightarrow>
          indent (h ! (rows ! (Suc parent_idx + n))) \<le> indent (h ! (rows ! parent_idx)))"
proof -
  define p where "p = indent (h ! (rows ! parent_idx))"
  define rest where "rest = drop (Suc parent_idx) rows"
  define n where "n = length (takeWhile (\<lambda>r. indent (h ! r) > p) rest)"
  have res: "collect_children h rows parent_idx = Inr (take n rest)"
    using assms takeWhile_eq_take [of "\<lambda>r. indent (h ! r) > p" rest]
    by (simp add: collect_children_def collect_loop_takeWhile p_def rest_def n_def)
  have len: "n \<le> length rest"
    by (simp add: n_def length_takeWhile_le)
  have bound: "Suc parent_idx + n \<le> length rows"
    using len assms by (simp add: rest_def)
  have inside: "indent (h ! (rows ! (Suc parent_idx + j))) > p" if "j < n" for j
  proof -
    have "takeWhile (\<lambda>r. indent (h ! r) > p) rest ! j
            \<in> set (takeWhile (\<lambda>r. indent (h ! r) > p) rest)"
      using that by (simp add: n_def)
    then have "indent (h ! (takeWhile (\<lambda>r. indent (h ! r) > p) rest ! j)) > p"
      by (meson set_takeWhileD)
    moreover have "takeWhile (\<lambda>r. indent (h ! r) > p) rest ! j = rest ! j"
      using that by (simp add: n_def takeWhile_nth)
    moreover have "rest ! j = rows ! (Suc parent_idx + j)"
      using that bound by (simp add: rest_def)
    ultimately show ?thesis by simp
  qed
  have after: "indent (h ! (rows ! (Suc parent_idx + n))) \<le> p"
    if "Suc parent_idx + n < length rows"
  proof -
    have "n < length rest" using that by (simp add: rest_def)
    then have "\<not> indent (h ! (rest ! n)) > p"
      unfolding n_def by (rule nth_length_takeWhile)
    moreover have "rest ! n = rows ! (Suc parent_idx + n)"
      using that by (simp add: rest_def)
    ultimately show ?thesis by simp
  qed
  show ?thesis
    using res bound inside after unfolding p_def rest_def by blast
qed

text \<open>The spec's example: \<open>A\<close> at depth 0, \<open>B\<close> and \<open>C\<close> at depth 2, \<open>D\<close> at depth 0; the
  children of \<open>A\<close> are \<open>B\<close> and \<open>C\<close>, and \<open>D\<close> has none.\<close>

theorem collect_children_maximal_run_witness:
  "(0::nat) < length [0, 1, 2, 3 :: nat]
   \<and> collect_children
        (scan_lines [''A 1 10.0 10.0 0 10.0 0'', ''  B 1 6.0 6.0 0 6.0 0'',
                     ''  C 1 9.0 9.0 0 9.0 0'', ''D 1 1.0 1.0 0 1.0 0''])
        [0, 1, 2, 3] 0 = Inr [1, 2]
   \<and> collect_children
        (scan_lines [''A 1 10.0 10.0 0 10.0 0'', ''  B 1 6.0 6.0 0 6.0 0'',
                     ''  C 1 9.0 9.0 0 9.0 0'', ''D 1 1.0 1.0 0 1.0 0''])
        [0, 1, 2, 3] 3 = Inr []
   \<and> (\<exists>n. collect_children
        (scan_lines [''A 1 10.0 10.0 0 10.0 0'', ''  B 1 6.0 6.0 0 6.0 0'',
                     ''  C 1 9.0 9.0 0 9.0 0'', ''D 1 1.0 1.0 0 1.0 0''])
        [0, 1, 2, 3] 0 = Inr (take n (drop (Suc 0) [0, 1, 2, 3])))"
proof -
  have hyp: "(0::nat) < length [0, 1, 2, 3 :: nat]" by simp
  have v1: "collect_children
        (scan_lines [''A 1 10.0 10.0 0 10.0 0'', ''  B 1 6.0 6.0 0 6.0 0'',
                     ''  C 1 9.0 9.0 0 9.0 0'', ''D 1 1.0 1.0 0 1.0 0''])
        [0, 1, 2, 3] 0 = Inr [1, 2]"
    by code_simp
  have v2: "collect_children
        (scan_lines [''A 1 10.0 10.0 0 10.0 0'', ''  B 1 6.0 6.0 0 6.0 0'',
                     ''  C 1 9.0 9.0 0 9.0 0'', ''D 1 1.0 1.0 0 1.0 0''])
        [0, 1, 2, 3] 3 = Inr []"
    by code_simp
  from collect_children_maximal_run [OF hyp] have
    "\<exists>n. collect_children
        (scan_lines [''A 1 10.0 10.0 0 10.0 0'', ''  B 1 6.0 6.0 0 6.0 0'',
                     ''  C 1 9.0 9.0 0 9.0 0'', ''D 1 1.0 1.0 0 1.0 0''])
        [0, 1, 2, 3] 0 = Inr (take n (drop (Suc 0) [0, 1, 2, 3]))"
    by blast
  with hyp v1 v2 show ?thesis by blast
qed

subsection \<open>The registry\<close>

lemma build_from_append:
  "build_region_map_from h m (xs @ ys)
     = build_region_map_from h (build_region_map_from h m xs) ys"
  by (induction xs arbitrary: m) auto

lemma build_from_snoc:
  "build_region_map_from h m (xs @ [r])
     = dict_set (region (h ! r)) r (build_region_map_from h m xs)"
  by (simp add: build_from_append)

lemma update_length_le: "length (AList.update k v al) \<le> Suc (length al)"
  by (induction al) auto

lemma build_length: "length (build_region_map_from h [] rows) \<le> length rows"
proof (induction rows rule: rev_induct)
  case Nil show ?case by simp
next
  case (snoc r rs)
  have "length (AList.update (region (h ! r)) r (build_region_map_from h [] rs))
        \<le> Suc (length (build_region_map_from h [] rs))"
    by (rule update_length_le)
  with snoc show ?case by (simp add: build_from_snoc dict_set_def)
qed

lemma build_distinct: "distinct (map fst (build_region_map_from h [] rows))"
proof (induction rows rule: rev_induct)
  case Nil show ?case by simp
next
  case (snoc r rs)
  then show ?case by (simp add: build_from_snoc dict_set_def distinct_update)
qed

lemma build_get_None:
  "(dict_get (build_region_map_from h [] rows) name = None)
     = (name \<notin> (\<lambda>r. region (h ! r)) ` set rows)"
proof (induction rows rule: rev_induct)
  case Nil show ?case by (simp add: dict_get_def)
next
  case (snoc r rs)
  then show ?case by (auto simp: build_from_snoc dict_set_def dict_get_def update_conv')
qed

lemma build_get_last:
  assumes "i < length rows"
    and "\<forall>j. i < j \<and> j < length rows \<longrightarrow> region (h ! (rows ! j)) \<noteq> region (h ! (rows ! i))"
  shows "dict_get (build_region_map_from h [] rows) (region (h ! (rows ! i))) = Some (rows ! i)"
  using assms
proof (induction rows rule: rev_induct)
  case Nil then show ?case by simp
next
  case (snoc r rs)
  show ?case
  proof (cases "i = length rs")
    case True
    then show ?thesis by (simp add: build_from_snoc dict_set_def dict_get_def update_conv')
  next
    case False
    with snoc.prems have i: "i < length rs" by simp
    have ne: "region (h ! r) \<noteq> region (h ! (rs ! i))"
      using snoc.prems(2) [rule_format, of "length rs"] i by (simp add: nth_append)
    have "\<forall>j. i < j \<and> j < length rs \<longrightarrow> region (h ! (rs ! j)) \<noteq> region (h ! (rs ! i))"
    proof (intro allI impI)
      fix j assume j: "i < j \<and> j < length rs"
      then show "region (h ! (rs ! j)) \<noteq> region (h ! (rs ! i))"
        using snoc.prems(2) [rule_format, of j] i by (simp add: nth_append)
    qed
    with snoc.IH i
    have "dict_get (build_region_map_from h [] rs) (region (h ! (rs ! i))) = Some (rs ! i)"
      by simp
    then show ?thesis
      using ne i by (simp add: build_from_snoc dict_set_def dict_get_def update_conv' nth_append)
  qed
qed

text \<open>
  Claim C5. The registry built from a sequence is a dictionary (its keys are distinct)
  with at most as many entries as the sequence has records; a name has an entry exactly
  when some record carries it; and the entry of a name is the record at the last
  position where the name occurs, that is, at the position after which the name does
  not occur again. Nothing of an earlier record with the same name is kept.
\<close>

theorem build_region_map_last_wins:
  "length (build_region_map h rows) \<le> length rows
   \<and> distinct (map fst (build_region_map h rows))
   \<and> (\<forall>name. (dict_get (build_region_map h rows) name = None)
                = (name \<notin> (\<lambda>r. region (h ! r)) ` set rows))
   \<and> (\<forall>i < length rows.
        (\<forall>j. i < j \<and> j < length rows \<longrightarrow> region (h ! (rows ! j)) \<noteq> region (h ! (rows ! i)))
        \<longrightarrow> dict_get (build_region_map h rows) (region (h ! (rows ! i))) = Some (rows ! i))"
  unfolding build_region_map_def
  using build_length [of h rows] build_distinct [of h rows] build_get_None [of h rows]
    build_get_last [of _ rows h]
  by blast

text \<open>Three records named \<open>A\<close>, \<open>B\<close>, \<open>A\<close>: the registry has two entries, \<open>A\<close> is the third
  record and \<open>B\<close>, which is not repeated after position 1, is the second.\<close>

theorem build_region_map_last_wins_witness:
  "build_region_map
     (scan_lines [''A 1 10.0 10.0 0 10.0 0'', ''B 1 6.0 6.0 0 6.0 0'', ''A 1 9.0 9.0 0 9.0 0''])
     [0, 1, 2] = [(''A'', 2), (''B'', 1)]
   \<and> (1::nat) < length [0, 1, 2 :: nat]
   \<and> region (scan_lines [''A 1 10.0 10.0 0 10.0 0'', ''B 1 6.0 6.0 0 6.0 0'',
                ''A 1 9.0 9.0 0 9.0 0''] ! ([0, 1, 2] ! 2))
       \<noteq> region (scan_lines [''A 1 10.0 10.0 0 10.0 0'', ''B 1 6.0 6.0 0 6.0 0'',
                ''A 1 9.0 9.0 0 9.0 0''] ! ([0, 1, 2] ! 1))
   \<and> dict_get (build_region_map
        (scan_lines [''A 1 10.0 10.0 0 10.0 0'', ''B 1 6.0 6.0 0 6.0 0'', ''A 1 9.0 9.0 0 9.0 0''])
        [0, 1, 2])
        (region (scan_lines [''A 1 10.0 10.0 0 10.0 0'', ''B 1 6.0 6.0 0 6.0 0'',
                   ''A 1 9.0 9.0 0 9.0 0''] ! ([0, 1, 2] ! 1)))
      = Some ([0, 1, 2] ! 1)"
proof -
  define H where "H = scan_lines [''A 1 10.0 10.0 0 10.0 0'', ''B 1 6.0 6.0 0 6.0 0'',
    ''A 1 9.0 9.0 0 9.0 0'']"
  have v: "build_region_map H [0, 1, 2] = [(''A'', 2), (''B'', 1)]"
    unfolding H_def by code_simp
  have len: "(1::nat) < length [0, 1, 2 :: nat]" by simp
  have ne: "region (H ! ([0, 1, 2] ! 2)) \<noteq> region (H ! ([0, 1, 2] ! 1))"
    unfolding H_def by code_simp
  have later: "\<forall>j. 1 < j \<and> j < length [0, 1, 2 :: nat] \<longrightarrow>
      region (H ! ([0, 1, 2] ! j)) \<noteq> region (H ! ([0, 1, 2] ! 1))"
  proof (intro allI impI)
    fix j :: nat assume "1 < j \<and> j < length [0, 1, 2 :: nat]"
    then have "j = 2" by simp
    then show "region (H ! ([0, 1, 2] ! j)) \<noteq> region (H ! ([0, 1, 2] ! 1))"
      using ne by simp
  qed
  have "dict_get (build_region_map H [0, 1, 2]) (region (H ! ([0, 1, 2] ! 1)))
          = Some ([0, 1, 2] ! 1)"
    using build_region_map_last_wins [of H "[0, 1, 2]"] len later by blast
  with v len ne show ?thesis unfolding H_def by blast
qed

subsection \<open>Ranking\<close>

lemma py_sorted_reverse_sorted:
  "sorted_wrt (\<lambda>a b. k a \<ge> k b) (py_sorted_reverse k xs)"
proof -
  have "sorted (map k (sort_key k (rev xs)))" by (rule sorted_sort_key)
  then have "sorted_wrt (\<lambda>a b. k a \<le> k b) (sort_key k (rev xs))"
    by (simp add: sorted_map)
  then show ?thesis
    unfolding py_sorted_reverse_def by (simp add: sorted_wrt_rev)
qed

lemma py_sorted_reverse_stable:
  "filter (\<lambda>y. k y = v) (py_sorted_reverse k xs) = filter (\<lambda>y. k y = v) xs"
proof -
  have "filter (\<lambda>y. k y = v) (py_sorted_reverse k xs)
          = rev (filter (\<lambda>y. k y = v) (sort_key k (rev xs)))"
    unfolding py_sorted_reverse_def by (simp add: rev_filter)
  also have "\<dots> = rev (filter (\<lambda>y. k y = v) (rev xs))"
    by (simp only: sort_key_stable)
  also have "\<dots> = filter (\<lambda>y. k y = v) xs"
    by (simp add: rev_filter)
  finally show ?thesis .
qed

lemma py_sorted_reverse_mset: "mset (py_sorted_reverse k xs) = mset xs"
  unfolding py_sorted_reverse_def by simp

lemma py_sorted_reverse_length: "length (py_sorted_reverse k xs) = length xs"
  unfolding py_sorted_reverse_def by simp

lemma slice_to_prefix: "\<exists>rest. slice_to xs n @ rest = xs"
  unfolding slice_to_def by (metis append_take_drop_id)

text \<open>
  Claim C3, amended. For every top-N count \<open>n \<ge> 0\<close> the ranking has
  \<open>min n (number of children)\<close> entries, is sorted by mean time in descending order, and
  children of equal mean time appear in it in their original order; fewer than \<open>n\<close>
  children is no error. The ranking is the front of the stable descending sort of all
  children: some \<open>rest\<close> completes it to a permutation of the children that is sorted
  and keeps the original order among equal means.
\<close>

theorem rank_children_top_n:
  assumes "0 \<le> n"
  shows "int (length (rank_children h cs n)) = min n (int (length cs))
    \<and> sorted_wrt (\<lambda>a b. Mean_s (h ! a) \<ge> Mean_s (h ! b)) (rank_children h cs n)
    \<and> (\<forall>v. prefix (filter (\<lambda>r. Mean_s (h ! r) = v) (rank_children h cs n))
                   (filter (\<lambda>r. Mean_s (h ! r) = v) cs))
    \<and> (\<exists>rest. mset (rank_children h cs n @ rest) = mset cs
          \<and> sorted_wrt (\<lambda>a b. Mean_s (h ! a) \<ge> Mean_s (h ! b)) (rank_children h cs n @ rest)
          \<and> (\<forall>v. filter (\<lambda>r. Mean_s (h ! r) = v) (rank_children h cs n @ rest)
                   = filter (\<lambda>r. Mean_s (h ! r) = v) cs))"
proof -
  define k where "k = (\<lambda>r. Mean_s (h ! r))"
  define full where "full = py_sorted_reverse k cs"
  have rank: "rank_children h cs n = take (nat n) full"
    using assms by (simp add: rank_children_def slice_to_def full_def k_def)
  have len: "int (length (rank_children h cs n)) = min n (int (length cs))"
    using assms by (auto simp add: rank full_def py_sorted_reverse_length min_def)
  have full_sorted: "sorted_wrt (\<lambda>a b. k a \<ge> k b) full"
    unfolding full_def by (rule py_sorted_reverse_sorted)
  have full_stable: "filter (\<lambda>r. k r = v) full = filter (\<lambda>r. k r = v) cs" for v
    unfolding full_def by (rule py_sorted_reverse_stable)
  have srt: "sorted_wrt (\<lambda>a b. k a \<ge> k b) (rank_children h cs n)"
    unfolding rank using full_sorted by (rule sorted_wrt_take)
  have stab: "prefix (filter (\<lambda>r. k r = v) (rank_children h cs n)) (filter (\<lambda>r. k r = v) cs)" for v
  proof -
    have "prefix (filter (\<lambda>r. k r = v) (take (nat n) full)) (filter (\<lambda>r. k r = v) full)"
      by (rule filter_mono_prefix) (rule take_is_prefix)
    then show ?thesis by (simp add: rank full_stable)
  qed
  have whole: "rank_children h cs n @ drop (nat n) full = full"
    by (simp add: rank)
  have ex: "\<exists>rest. mset (rank_children h cs n @ rest) = mset cs
          \<and> sorted_wrt (\<lambda>a b. k a \<ge> k b) (rank_children h cs n @ rest)
          \<and> (\<forall>v. filter (\<lambda>r. k r = v) (rank_children h cs n @ rest) = filter (\<lambda>r. k r = v) cs)"
  proof (intro exI conjI allI)
    have "mset full = mset cs"
      unfolding full_def by (rule py_sorted_reverse_mset)
    then show "mset (rank_children h cs n @ drop (nat n) full) = mset cs"
      by (simp only: whole)
    show "sorted_wrt (\<lambda>a b. k a \<ge> k b) (rank_children h cs n @ drop (nat n) full)"
      unfolding whole by (rule full_sorted)
    show "filter (\<lambda>r. k r = v) (rank_children h cs n @ drop (nat n) full)
            = filter (\<lambda>r. k r = v) cs" for v
      unfolding whole by (rule full_stable)
  qed
  show ?thesis
    using len srt stab ex unfolding k_def by blast
qed

text \<open>The claim as stated, for every count: \<open>--top\<close> is any integer, and for \<open>-1\<close> the
  slice drops the last of three children, so the ranking has two entries and not
  \<open>min (-1) 3\<close>.\<close>

theorem rank_children_negative_top:
  "length (rank_children
     (scan_lines [''B 1 6.0 6.0 0 6.0 0'', ''C 1 9.0 9.0 0 9.0 0'', ''E 1 6.0 6.0 0 6.0 0''])
     [0, 1, 2] (- 1)) = 2
   \<and> int (length (rank_children
     (scan_lines [''B 1 6.0 6.0 0 6.0 0'', ''C 1 9.0 9.0 0 9.0 0'', ''E 1 6.0 6.0 0 6.0 0''])
     [0, 1, 2] (- 1))) \<noteq> min (- 1) (int (length [0, 1, 2 :: nat]))"
proof -
  have "rank_children
     (scan_lines [''B 1 6.0 6.0 0 6.0 0'', ''C 1 9.0 9.0 0 9.0 0'', ''E 1 6.0 6.0 0 6.0 0''])
     [0, 1, 2] (- 1) = [1, 0]"
    by code_simp
  then show ?thesis by simp
qed

text \<open>Means 6, 9, 6: the ranking is the second child, then the first, then the third.\<close>

theorem rank_children_top_n_witness:
  "(0::int) \<le> 2
   \<and> rank_children
     (scan_lines [''B 1 6.0 6.0 0 6.0 0'', ''C 1 9.0 9.0 0 9.0 0'', ''E 1 6.0 6.0 0 6.0 0''])
     [0, 1, 2] 2 = [1, 0]
   \<and> rank_children
     (scan_lines [''B 1 6.0 6.0 0 6.0 0'', ''C 1 9.0 9.0 0 9.0 0'', ''E 1 6.0 6.0 0 6.0 0''])
     [0, 1, 2] 7 = [1, 0, 2]
   \<and> int (length (rank_children
     (scan_lines [''B 1 6.0 6.0 0 6.0 0'', ''C 1 9.0 9.0 0 9.0 0'', ''E 1 6.0 6.0 0 6.0 0''])
     [0, 1, 2] 2)) = min 2 (int (length [0, 1, 2 :: nat]))"
proof -
  have hyp: "(0::int) \<le> 2" by simp
  have v1: "rank_children
     (scan_lines [''B 1 6.0 6.0 0 6.0 0'', ''C 1 9.0 9.0 0 9.0 0'', ''E 1 6.0 6.0 0 6.0 0''])
     [0, 1, 2] 2 = [1, 0]"
    by code_simp
  have v2: "rank_children
     (scan_lines [''B 1 6.0 6.0 0 6.0 0'', ''C 1 9.0 9.0 0 9.0 0'', ''E 1 6.0 6.0 0 6.0 0''])
     [0, 1, 2] 7 = [1, 0, 2]"
    by code_simp
  from rank_children_top_n [OF hyp] have "int (length (rank_children
     (scan_lines [''B 1 6.0 6.0 0 6.0 0'', ''C 1 9.0 9.0 0 9.0 0'', ''E 1 6.0 6.0 0 6.0 0''])
     [0, 1, 2] 2)) = min 2 (int (length [0, 1, 2 :: nat]))"
    by blast
  with hyp v1 v2 show ?thesis by blast
qed
subsection \<open>Facts about main\<close>

lemma parse_Inr:
  assumes "parse_esmf_summary h text = Inr (rows, h')"
  shows "h' = h @ scan_lines (splitlines text)"
    and "rows = [length h ..< length h']"
    and "scan_lines (splitlines text) \<noteq> []"
  using assms by (auto simp: parse_esmf_summary_def Let_def split: if_splits)

lemma find_from_Some:
  "find_from h name i rs = Some (r, j) \<Longrightarrow>
     i \<le> j \<and> j - i < length rs \<and> r = rs ! (j - i) \<and> region (h ! r) = name
     \<and> (\<forall>k < j - i. region (h ! (rs ! k)) \<noteq> name)"
proof (induction rs arbitrary: i)
  case Nil then show ?case by simp
next
  case (Cons x xs)
  show ?case
  proof (cases "region (h ! x) = name")
    case True
    with Cons.prems show ?thesis by simp
  next
    case False
    with Cons.prems have "find_from h name (Suc i) xs = Some (r, j)" by simp
    from Cons.IH [OF this] have ih: "Suc i \<le> j" "j - Suc i < length xs"
      "r = xs ! (j - Suc i)" "region (h ! r) = name"
      "\<forall>k < j - Suc i. region (h ! (xs ! k)) \<noteq> name" by auto
    have eq: "j - i = Suc (j - Suc i)" using ih(1) by simp
    have "\<forall>k < j - i. region (h ! ((x # xs) ! k)) \<noteq> name"
    proof (intro allI impI)
      fix k assume "k < j - i"
      then show "region (h ! ((x # xs) ! k)) \<noteq> name"
        using False ih(5) eq by (cases k) auto
    qed
    then show ?thesis using ih eq by simp
  qed
qed

lemma find_from_None:
  "(find_from h name i rs = None) = (name \<notin> (\<lambda>r. region (h ! r)) ` set rs)"
  by (induction rs arbitrary: i) auto

lemma find_from_first:
  assumes "j < length rs" "region (h ! (rs ! j)) = name"
    "\<forall>k < j. region (h ! (rs ! k)) \<noteq> name"
  shows "find_from h name i rs = Some (rs ! j, i + j)"
  using assms
proof (induction rs arbitrary: i j)
  case Nil then show ?case by simp
next
  case (Cons x xs)
  show ?case
  proof (cases j)
    case 0
    with Cons.prems show ?thesis by simp
  next
    case (Suc j')
    have ne: "region (h ! x) \<noteq> name"
      using Cons.prems(3) Suc by auto
    have "find_from h name (Suc i) xs = Some (xs ! j', Suc i + j')"
    proof (rule Cons.IH)
      show "j' < length xs" using Cons.prems(1) Suc by simp
      show "region (h ! (xs ! j')) = name" using Cons.prems(2) Suc by simp
      show "\<forall>k < j'. region (h ! (xs ! k)) \<noteq> name"
        using Cons.prems(3) Suc by auto
    qed
    with ne Suc show ?thesis by simp
  qed
qed

lemma find_region_rows_Some:
  assumes "find_region_rows h rows name = Some (r, i)"
  shows "i < length rows \<and> r = rows ! i \<and> region (h ! r) = name
     \<and> (\<forall>k < i. region (h ! (rows ! k)) \<noteq> name)"
proof -
  have "find_from h name 0 rows = Some (r, i)"
    using assms by (simp add: find_region_rows_def)
  from find_from_Some [OF this] show ?thesis
    unfolding diff_zero by blast
qed

lemma collect_loop_subset: "set (collect_loop h p rs) \<subseteq> set rs"
  by (induction rs) auto

lemma collect_children_subset:
  "collect_children h rows p = Inr cs \<Longrightarrow> set cs \<subseteq> set rows"
  unfolding collect_children_def
  using collect_loop_subset [of h "indent (h ! (rows ! p))" "drop (Suc p) rows"]
  by (auto split: if_splits dest: in_set_dropD)

lemma set_shares_length: "length (set_shares pmean cs h) = length h"
  by (induction cs arbitrary: h) auto

lemma set_shares_nth:
  "r < length h \<Longrightarrow>
   set_shares pmean cs h ! r =
     (if r \<in> set cs
      then (h ! r)\<lparr>pct_of_parent_mean := Some (share_of_parent pmean (Mean_s (h ! r)))\<rparr>
      else h ! r)"
proof (induction cs arbitrary: h)
  case Nil then show ?case by simp
next
  case (Cons c cs)
  define h' where
    "h' = h[c := (h ! c)\<lparr>pct_of_parent_mean := Some (share_of_parent pmean (Mean_s (h ! c)))\<rparr>]"
  have len: "r < length h'" using Cons.prems by (simp add: h'_def)
  have step: "set_shares pmean (c # cs) h = set_shares pmean cs h'"
    by (simp add: h'_def)
  have ih: "set_shares pmean cs h' ! r =
     (if r \<in> set cs
      then (h' ! r)\<lparr>pct_of_parent_mean := Some (share_of_parent pmean (Mean_s (h' ! r)))\<rparr>
      else h' ! r)"
    by (rule Cons.IH [OF len])
  show ?case
  proof (cases "r = c")
    case True
    have b: "h' ! r = (h ! r)\<lparr>pct_of_parent_mean := Some (share_of_parent pmean (Mean_s (h ! r)))\<rparr>"
      using Cons.prems True by (simp add: h'_def)
    have "set_shares pmean cs h' ! r
            = (h ! r)\<lparr>pct_of_parent_mean := Some (share_of_parent pmean (Mean_s (h ! r)))\<rparr>"
      unfolding ih b by simp
    then show ?thesis
      unfolding step using True by simp
  next
    case False
    then have b: "h' ! r = h ! r" by (simp add: h'_def)
    show ?thesis
      unfolding step ih b using False by simp
  qed
qed

lemma load_optimized_heap:
  assumes "load_optimized h name opt = Inr (m, h', w)"
  shows "h' = h @ (case opt of None \<Rightarrow> [] | Some text \<Rightarrow> scan_lines (splitlines text))"
  using assms
  by (auto simp: load_optimized_def dest: parse_Inr(1) split: option.splits sum.splits prod.splits)

lemma main_Inr:
  assumes "main a = Inr res"
  obtains base_rows h1 name parent pidx cs where
    "parse_esmf_summary [] (summary a) = Inr (base_rows, h1)"
    "choose_region h1 base_rows (region_arg a) = Inr name"
    "find_region_rows h1 base_rows name = Some (parent, pidx)"
    "collect_children h1 base_rows pidx = Inr cs"
    "cs = [] \<and> res = no_children name h1 \<or> cs \<noteq> [] \<and> report a name h1 parent cs = Inr res"
  using assms unfolding main_def
  by (auto split: sum.splits prod.splits option.splits if_splits)

lemma report_Inr:
  assumes "report a name h1 parent cs = Inr res"
  obtains opt_map h3 w where
    "load_optimized (set_shares (Mean_s (h1 ! parent)) cs h1) name (optimized_summary a)
       = Inr (opt_map, h3, w)"
    "final_heap res = h3"
    "csv_rows res = map (row_out_of h3 (optimized_summary a \<noteq> None) opt_map)
       (rank_children (set_shares (Mean_s (h1 ! parent)) cs h1) cs (top a))"
    "labels res = map (\<lambda>r. region (h3 ! r))
       (rank_children (set_shares (Mean_s (h1 ! parent)) cs h1) cs (top a))"
    "base_xerr_low res = map (\<lambda>r. max 0 (Mean_s (h3 ! r) - Min_s (h3 ! r)))
       (rank_children (set_shares (Mean_s (h1 ! parent)) cs h1) cs (top a))"
    "base_xerr_high res = map (\<lambda>r. max 0 (Max_s (h3 ! r) - Mean_s (h3 ! r)))
       (rank_children (set_shares (Mean_s (h1 ! parent)) cs h1) cs (top a))"
    "opt_means res = map (opt_mean_of h3 (optimized_summary a \<noteq> None) opt_map)
       (rank_children (set_shares (Mean_s (h1 ! parent)) cs h1) cs (top a))"
  using assms unfolding report_def Let_def
  by (auto split: sum.splits prod.splits)

lemma scan_lines_pct: "r \<in> set (scan_lines ls) \<Longrightarrow> pct_of_parent_mean r = None"
  by (induction ls) (auto simp: mk_row_def split: option.splits)

lemma pct_reset: "pct_of_parent_mean x = None \<Longrightarrow> x\<lparr>pct_of_parent_mean := None\<rparr> = x"
  by (cases x) simp

lemma main_children_valid:
  assumes "parse_esmf_summary [] text = Inr (base_rows, h1)"
    and "collect_children h1 base_rows pidx = Inr cs"
    and "c \<in> set cs"
  shows "c < length h1"
proof -
  have "c \<in> set base_rows"
    using collect_children_subset [OF assms(2)] assms(3) by blast
  then show ?thesis
    using parse_Inr(2) [OF assms(1)] by simp
qed

lemma main_final_heap:
  assumes "main a = Inr res"
    and "parse_esmf_summary [] (summary a) = Inr (base_rows, h1)"
  obtains cs pmean extra where
    "final_heap res = set_shares pmean cs h1 @ extra"
    "set cs \<subseteq> set base_rows"
    "extra = [] \<or> (\<exists>text. optimized_summary a = Some text \<and> extra = scan_lines (splitlines text))"
proof -
  from assms(1) obtain base_rows' h1' name parent pidx cs where m:
    "parse_esmf_summary [] (summary a) = Inr (base_rows', h1')"
    "collect_children h1' base_rows' pidx = Inr cs"
    "cs = [] \<and> res = no_children name h1' \<or> cs \<noteq> [] \<and> report a name h1' parent cs = Inr res"
    by (rule main_Inr)
  from m(1) assms(2) have eq: "base_rows' = base_rows" "h1' = h1" by simp_all
  have sub: "set cs \<subseteq> set base_rows"
    using collect_children_subset [OF m(2)] eq by simp
  from m(3) show ?thesis
  proof
    assume "cs = [] \<and> res = no_children name h1'"
    then have "final_heap res = set_shares 0 [] h1 @ []"
      using eq by (simp add: no_children_def)
    then show ?thesis using that [of 0 "[]" "[]"] by simp
  next
    assume "cs \<noteq> [] \<and> report a name h1' parent cs = Inr res"
    then have rep: "report a name h1 parent cs = Inr res" using eq by simp
    from rep obtain opt_map h3 w where r:
      "load_optimized (set_shares (Mean_s (h1 ! parent)) cs h1) name (optimized_summary a)
         = Inr (opt_map, h3, w)"
      "final_heap res = h3"
      by (rule report_Inr)
    have "h3 = set_shares (Mean_s (h1 ! parent)) cs h1
       @ (case optimized_summary a of None \<Rightarrow> [] | Some text \<Rightarrow> scan_lines (splitlines text))"
      by (rule load_optimized_heap [OF r(1)])
    then show ?thesis
      using that [of "Mean_s (h1 ! parent)" cs
          "case optimized_summary a of None \<Rightarrow> [] | Some text \<Rightarrow> scan_lines (splitlines text)"]
        r(2) sub
      by (auto split: option.splits)
  qed
qed

text \<open>
  Claim C8, amended. After a document is parsed, no later operation changes any of the
  ten parsed fields of any record. The baseline sequence is not left untouched, though:
  the share-of-parent computation writes its result into the children's own records,
  under the additional key \<^verbatim>\<open>"% of parent (mean)"\<close>. So each baseline record is in the end
  either as parsed or as parsed with that one key added, and the records of the
  optimized document, which the registry refers to, stay exactly as parsed.
\<close>

theorem rows_keep_parsed_fields:
  assumes "main a = Inr res"
  shows "\<exists>base_rows h1.
      parse_esmf_summary [] (summary a) = Inr (base_rows, h1)
    \<and> base_rows = [0 ..< length h1]
    \<and> length h1 \<le> length (final_heap res)
    \<and> list_all (\<lambda>r. (final_heap res ! r)\<lparr>pct_of_parent_mean := None\<rparr> = h1 ! r) base_rows
    \<and> list_all (\<lambda>r. final_heap res ! r = h1 ! r
          \<or> (\<exists>p. final_heap res ! r = (h1 ! r)\<lparr>pct_of_parent_mean := Some p\<rparr>)) base_rows
    \<and> (drop (length h1) (final_heap res) = []
        \<or> (\<exists>text. optimized_summary a = Some text
              \<and> drop (length h1) (final_heap res) = scan_lines (splitlines text)))"
proof -
  from assms obtain base_rows h1 where p: "parse_esmf_summary [] (summary a) = Inr (base_rows, h1)"
    by (rule main_Inr)
  have h1: "h1 = scan_lines (splitlines (summary a))"
    using parse_Inr(1) [OF p] by simp
  have rows: "base_rows = [0 ..< length h1]"
    using parse_Inr(2) [OF p] by simp
  from assms p obtain cs pmean extra where f:
    "final_heap res = set_shares pmean cs h1 @ extra"
    "extra = [] \<or> (\<exists>text. optimized_summary a = Some text \<and> extra = scan_lines (splitlines text))"
    by (rule main_final_heap)
  have len: "length h1 \<le> length (final_heap res)"
    by (simp add: f(1) set_shares_length)
  have nth: "final_heap res ! r = set_shares pmean cs h1 ! r" if "r < length h1" for r
    using that by (simp add: f(1) nth_append set_shares_length)
  have parsed: "pct_of_parent_mean (h1 ! r) = None" if "r < length h1" for r
  proof -
    have "h1 ! r \<in> set (scan_lines (splitlines (summary a)))"
      using that h1 by simp
    then show ?thesis by (rule scan_lines_pct)
  qed
  have a1: "(final_heap res ! r)\<lparr>pct_of_parent_mean := None\<rparr> = h1 ! r" if "r < length h1" for r
    using that nth [OF that] parsed [OF that] by (simp add: set_shares_nth pct_reset)
  have a2: "final_heap res ! r = h1 ! r
          \<or> (\<exists>p. final_heap res ! r = (h1 ! r)\<lparr>pct_of_parent_mean := Some p\<rparr>)"
    if "r < length h1" for r
    using that nth [OF that] by (auto simp add: set_shares_nth)
  have l1: "list_all (\<lambda>r. (final_heap res ! r)\<lparr>pct_of_parent_mean := None\<rparr> = h1 ! r) base_rows"
    unfolding rows list_all_iff using a1 by simp
  have l2: "list_all (\<lambda>r. final_heap res ! r = h1 ! r
          \<or> (\<exists>p. final_heap res ! r = (h1 ! r)\<lparr>pct_of_parent_mean := Some p\<rparr>)) base_rows"
    unfolding rows list_all_iff using a2 by simp
  have rest: "drop (length h1) (final_heap res) = extra"
    by (simp add: f(1) set_shares_length)
  have tail: "drop (length h1) (final_heap res) = []
        \<or> (\<exists>text. optimized_summary a = Some text
              \<and> drop (length h1) (final_heap res) = scan_lines (splitlines text))"
    using f(2) unfolding rest .
  from p rows len l1 l2 tail show ?thesis by blast
qed
text \<open>The record of child \<open>B\<close> (reference 1) has no share key after parsing and
  carries the share 60 when \<open>main\<close> has run: a record of the sequence was updated.\<close>

theorem share_written_into_sequence:
  "\<not> isl (parse_esmf_summary [] sample_baseline)
   \<and> fst (projr (parse_esmf_summary [] sample_baseline)) = [0, 1, 2, 3, 4]
   \<and> pct_of_parent_mean (snd (projr (parse_esmf_summary [] sample_baseline)) ! 1) = None
   \<and> \<not> isl (main \<lparr>summary = sample_baseline, region_arg = Some ''A'', top = 12,
               csv = None, png = None, optimized_summary = None\<rparr>)
   \<and> pct_of_parent_mean (final_heap (projr (main \<lparr>summary = sample_baseline,
        region_arg = Some ''A'', top = 12, csv = None, png = None,
        optimized_summary = None\<rparr>)) ! 1) = Some (Num 60)
   \<and> final_heap (projr (main \<lparr>summary = sample_baseline,
        region_arg = Some ''A'', top = 12, csv = None, png = None,
        optimized_summary = None\<rparr>)) ! 1
       \<noteq> snd (projr (parse_esmf_summary [] sample_baseline)) ! 1"
  by code_simp

text \<open>The same run with the optimized sample: five baseline records, three more records
  of the optimized document behind them.\<close>

theorem rows_keep_parsed_fields_witness:
  "main \<lparr>summary = sample_baseline, region_arg = Some ''A'', top = 12, csv = None,
       png = None, optimized_summary = Some sample_optimized\<rparr>
     = Inr (projr (main \<lparr>summary = sample_baseline, region_arg = Some ''A'', top = 12,
              csv = None, png = None, optimized_summary = Some sample_optimized\<rparr>))
   \<and> length (final_heap (projr (main \<lparr>summary = sample_baseline, region_arg = Some ''A'',
        top = 12, csv = None, png = None, optimized_summary = Some sample_optimized\<rparr>))) = 8
   \<and> (\<exists>base_rows h1.
        parse_esmf_summary [] sample_baseline = Inr (base_rows, h1)
        \<and> base_rows = [0 ..< length h1]
        \<and> list_all (\<lambda>r. (final_heap (projr (main \<lparr>summary = sample_baseline,
              region_arg = Some ''A'', top = 12, csv = None, png = None,
              optimized_summary = Some sample_optimized\<rparr>)) ! r)
                \<lparr>pct_of_parent_mean := None\<rparr> = h1 ! r) base_rows)"
proof -
  define a where "a = \<lparr>summary = sample_baseline, region_arg = Some ''A'', top = 12,
    csv = None, png = None, optimized_summary = Some sample_optimized\<rparr>"
  have "\<not> isl (main a)" unfolding a_def by code_simp
  then have run: "main a = Inr (projr (main a))" by simp
  have len: "length (final_heap (projr (main a))) = 8" unfolding a_def by code_simp
  have "\<exists>base_rows h1.
        parse_esmf_summary [] (summary a) = Inr (base_rows, h1)
        \<and> base_rows = [0 ..< length h1]
        \<and> list_all (\<lambda>r. (final_heap (projr (main a)) ! r)\<lparr>pct_of_parent_mean := None\<rparr>
              = h1 ! r) base_rows"
    using rows_keep_parsed_fields [OF run] by blast
  then have "\<exists>base_rows h1.
        parse_esmf_summary [] sample_baseline = Inr (base_rows, h1)
        \<and> base_rows = [0 ..< length h1]
        \<and> list_all (\<lambda>r. (final_heap (projr (main a)) ! r)\<lparr>pct_of_parent_mean := None\<rparr>
              = h1 ! r) base_rows"
    by (simp add: a_def)
  with run len show ?thesis unfolding a_def by blast
qed

subsection \<open>Ratios and error bars\<close>

text \<open>
  Claim C6. In a finished run every child of the chosen region carries the share
  \<open>100 * child mean / parent mean\<close> when the parent's mean is positive and the NaN
  sentinel otherwise; and every CSV row that has a counterpart carries the speedup
  \<open>baseline mean / optimized mean\<close> when the optimized mean is positive and the \<open>None\<close>
  sentinel otherwise. Neither computation can raise: a division is only reached behind
  its guard.
\<close>

theorem ratios_guarded:
  assumes "main a = Inr res"
  shows "(\<exists>base_rows h1 name parent pidx cs.
        parse_esmf_summary [] (summary a) = Inr (base_rows, h1)
      \<and> choose_region h1 base_rows (region_arg a) = Inr name
      \<and> find_region_rows h1 base_rows name = Some (parent, pidx)
      \<and> collect_children h1 base_rows pidx = Inr cs
      \<and> list_all (\<lambda>c. pct_of_parent_mean (final_heap res ! c)
            = Some (if Mean_s (h1 ! parent) > 0
                    then Num (100 * Mean_s (h1 ! c) / Mean_s (h1 ! parent)) else NaN)) cs)
    \<and> list_all (\<lambda>ro. case optimized ro of None \<Rightarrow> True
          | Some op \<Rightarrow> speedup_base_over_opt op
              = (if optimized_mean_s op > 0
                 then Some (baseline_mean_s ro / optimized_mean_s op) else None))
        (csv_rows res)"
proof -
  from assms obtain base_rows h1 name parent pidx cs where m:
    "parse_esmf_summary [] (summary a) = Inr (base_rows, h1)"
    "choose_region h1 base_rows (region_arg a) = Inr name"
    "find_region_rows h1 base_rows name = Some (parent, pidx)"
    "collect_children h1 base_rows pidx = Inr cs"
    "cs = [] \<and> res = no_children name h1 \<or> cs \<noteq> [] \<and> report a name h1 parent cs = Inr res"
    by (rule main_Inr)
  have valid: "c < length h1" if "c \<in> set cs" for c
    using m(1) m(4) that by (rule main_children_valid)
  have both: "list_all (\<lambda>c. pct_of_parent_mean (final_heap res ! c)
            = Some (if Mean_s (h1 ! parent) > 0
                    then Num (100 * Mean_s (h1 ! c) / Mean_s (h1 ! parent)) else NaN)) cs
    \<and> list_all (\<lambda>ro. case optimized ro of None \<Rightarrow> True
          | Some op \<Rightarrow> speedup_base_over_opt op
              = (if optimized_mean_s op > 0
                 then Some (baseline_mean_s ro / optimized_mean_s op) else None))
        (csv_rows res)"
    using m(5)
  proof
    assume "cs = [] \<and> res = no_children name h1"
    then show ?thesis by (simp add: no_children_def)
  next
    assume "cs \<noteq> [] \<and> report a name h1 parent cs = Inr res"
    then have rep: "report a name h1 parent cs = Inr res" by simp
    from rep obtain opt_map h3 w where r:
      "load_optimized (set_shares (Mean_s (h1 ! parent)) cs h1) name (optimized_summary a)
         = Inr (opt_map, h3, w)"
      "final_heap res = h3"
      "csv_rows res = map (row_out_of h3 (optimized_summary a \<noteq> None) opt_map)
         (rank_children (set_shares (Mean_s (h1 ! parent)) cs h1) cs (top a))"
      by (rule report_Inr)
    have h3: "h3 = set_shares (Mean_s (h1 ! parent)) cs h1
       @ (case optimized_summary a of None \<Rightarrow> [] | Some text \<Rightarrow> scan_lines (splitlines text))"
      by (rule load_optimized_heap [OF r(1)])
    have share: "pct_of_parent_mean (final_heap res ! c)
            = Some (if Mean_s (h1 ! parent) > 0
                    then Num (100 * Mean_s (h1 ! c) / Mean_s (h1 ! parent)) else NaN)"
      if "c \<in> set cs" for c
      using that valid [OF that]
      by (simp add: r(2) h3 nth_append set_shares_length set_shares_nth share_of_parent_def)
    have speed: "case optimized ro of None \<Rightarrow> True
          | Some op \<Rightarrow> speedup_base_over_opt op
              = (if optimized_mean_s op > 0
                 then Some (baseline_mean_s ro / optimized_mean_s op) else None)"
      if "ro \<in> set (csv_rows res)" for ro
      using that unfolding r(3)
      by (auto simp: row_out_of_def speedup_of_def split: option.splits)
    show ?thesis
      unfolding list_all_iff using share speed by blast
  qed
  with m(1-4) show ?thesis by blast
qed

text \<open>The samples: shares 60, 90 and 20 of the parent's 10 seconds; \<open>B\<close> is twice as
  fast, \<open>E\<close> has an optimized mean of zero and so no speedup.\<close>

theorem ratios_guarded_witness:
  "main \<lparr>summary = sample_baseline, region_arg = Some ''A'', top = 12, csv = None,
       png = None, optimized_summary = Some sample_optimized\<rparr>
     = Inr (projr (main \<lparr>summary = sample_baseline, region_arg = Some ''A'', top = 12,
              csv = None, png = None, optimized_summary = Some sample_optimized\<rparr>))
   \<and> map (\<lambda>c. pct_of_parent_mean (final_heap (projr (main \<lparr>summary = sample_baseline,
        region_arg = Some ''A'', top = 12, csv = None, png = None,
        optimized_summary = Some sample_optimized\<rparr>)) ! c)) [1, 2, 3]
       = [Some (Num 60), Some (Num 90), Some (Num 20)]
   \<and> map (map_option speedup_base_over_opt \<circ> optimized)
        (csv_rows (projr (main \<lparr>summary = sample_baseline, region_arg = Some ''A'',
           top = 12, csv = None, png = None, optimized_summary = Some sample_optimized\<rparr>)))
       = [None, Some (Some 2), Some None]
   \<and> list_all (\<lambda>ro. case optimized ro of None \<Rightarrow> True
          | Some op \<Rightarrow> speedup_base_over_opt op
              = (if optimized_mean_s op > 0
                 then Some (baseline_mean_s ro / optimized_mean_s op) else None))
        (csv_rows (projr (main \<lparr>summary = sample_baseline, region_arg = Some ''A'',
           top = 12, csv = None, png = None, optimized_summary = Some sample_optimized\<rparr>)))"
proof -
  define a where "a = \<lparr>summary = sample_baseline, region_arg = Some ''A'', top = 12,
    csv = None, png = None, optimized_summary = Some sample_optimized\<rparr>"
  have "\<not> isl (main a)" unfolding a_def by code_simp
  then have run: "main a = Inr (projr (main a))" by simp
  have v1: "map (\<lambda>c. pct_of_parent_mean (final_heap (projr (main a)) ! c)) [1, 2, 3]
       = [Some (Num 60), Some (Num 90), Some (Num 20)]"
    unfolding a_def by code_simp
  have v2: "map (map_option speedup_base_over_opt \<circ> optimized) (csv_rows (projr (main a)))
       = [None, Some (Some 2), Some None]"
    unfolding a_def by code_simp
  have "list_all (\<lambda>ro. case optimized ro of None \<Rightarrow> True
          | Some op \<Rightarrow> speedup_base_over_opt op
              = (if optimized_mean_s op > 0
                 then Some (baseline_mean_s ro / optimized_mean_s op) else None))
        (csv_rows (projr (main a)))"
    using ratios_guarded [OF run] by blast
  with run v1 v2 show ?thesis unfolding a_def by blast
qed

text \<open>
  Claim C10. In a finished run the error-bar extents of the selected children are, child
  by child, \<open>max 0 (mean - min)\<close> and \<open>max 0 (max - mean)\<close> of the child's baseline
  statistics, and none of them is negative, whatever the order of min, mean and max.
\<close>

theorem error_bars_clamped:
  assumes "main a = Inr res"
  shows "base_xerr_low res
           = map (\<lambda>ro. max 0 (baseline_mean_s ro - baseline_min_s ro)) (csv_rows res)
    \<and> base_xerr_high res
           = map (\<lambda>ro. max 0 (baseline_max_s ro - baseline_mean_s ro)) (csv_rows res)
    \<and> map csv_region (csv_rows res) = labels res
    \<and> list_all (\<lambda>x. 0 \<le> x) (base_xerr_low res)
    \<and> list_all (\<lambda>x. 0 \<le> x) (base_xerr_high res)"
proof -
  from assms obtain name h1 parent cs where
    m: "cs = [] \<and> res = no_children name h1 \<or> cs \<noteq> [] \<and> report a name h1 parent cs = Inr res"
    by (rule main_Inr)
  from m show ?thesis
  proof
    assume "cs = [] \<and> res = no_children name h1"
    then show ?thesis by (simp add: no_children_def)
  next
    assume "cs \<noteq> [] \<and> report a name h1 parent cs = Inr res"
    then have "report a name h1 parent cs = Inr res" by simp
    then obtain opt_map h3 sel where
      c: "csv_rows res = map (row_out_of h3 (optimized_summary a \<noteq> None) opt_map) sel"
      and l: "labels res = map (\<lambda>r. region (h3 ! r)) sel"
      and lo: "base_xerr_low res = map (\<lambda>r. max 0 (Mean_s (h3 ! r) - Min_s (h3 ! r))) sel"
      and hi: "base_xerr_high res = map (\<lambda>r. max 0 (Max_s (h3 ! r) - Mean_s (h3 ! r))) sel"
      by (rule report_Inr) blast
    show ?thesis
      unfolding c l lo hi by (simp add: row_out_of_def list_all_iff comp_def)
  qed
qed

text \<open>The samples: the statistics of \<open>C\<close> are out of order, so both of its extents are
  clamped to \<open>0\<close>.\<close>

theorem error_bars_clamped_witness:
  "main \<lparr>summary = sample_baseline, region_arg = Some ''A'', top = 12, csv = None,
       png = None, optimized_summary = None\<rparr>
     = Inr (projr (main \<lparr>summary = sample_baseline, region_arg = Some ''A'', top = 12,
              csv = None, png = None, optimized_summary = None\<rparr>))
   \<and> labels (projr (main \<lparr>summary = sample_baseline, region_arg = Some ''A'', top = 12,
        csv = None, png = None, optimized_summary = None\<rparr>)) = [''C'', ''B'', ''E'']
   \<and> base_xerr_low (projr (main \<lparr>summary = sample_baseline, region_arg = Some ''A'',
        top = 12, csv = None, png = None, optimized_summary = None\<rparr>)) = [0, 1, 0]
   \<and> base_xerr_high (projr (main \<lparr>summary = sample_baseline, region_arg = Some ''A'',
        top = 12, csv = None, png = None, optimized_summary = None\<rparr>)) = [0, 1, 0]
   \<and> list_all (\<lambda>x. 0 \<le> x) (base_xerr_low (projr (main \<lparr>summary = sample_baseline,
        region_arg = Some ''A'', top = 12, csv = None, png = None,
        optimized_summary = None\<rparr>)))"
proof -
  define a where "a = \<lparr>summary = sample_baseline, region_arg = Some ''A'', top = 12,
    csv = None, png = None, optimized_summary = None\<rparr>"
  have "\<not> isl (main a)" unfolding a_def by code_simp
  then have run: "main a = Inr (projr (main a))" by simp
  have v0: "labels (projr (main a)) = [''C'', ''B'', ''E'']" unfolding a_def by code_simp
  have v1: "base_xerr_low (projr (main a)) = [0, 1, 0]" unfolding a_def by code_simp
  have v2: "base_xerr_high (projr (main a)) = [0, 1, 0]" unfolding a_def by code_simp
  have "list_all (\<lambda>x. 0 \<le> x) (base_xerr_low (projr (main a)))"
    using error_bars_clamped [OF run] by blast
  with run v0 v1 v2 show ?thesis unfolding a_def by blast
qed
subsection \<open>Looking up the region\<close>

lemma parse_Inl: "parse_esmf_summary h text = Inl e \<Longrightarrow> \<exists>msg. e = RuntimeError msg"
  by (auto simp: parse_esmf_summary_def Let_def split: if_splits)

lemma report_Inl: "report a name h1 parent cs = Inl e \<Longrightarrow> \<exists>msg. e = RuntimeError msg"
  unfolding report_def Let_def load_optimized_def
  by (auto split: sum.splits prod.splits option.splits dest: parse_Inl)

lemma find_region_rows_None:
  "(find_region_rows h rows name = None) = (name \<notin> (\<lambda>r. region (h ! r)) ` set rows)"
  unfolding find_region_rows_def by (rule find_from_None)

lemma list_ex_image: "list_ex (\<lambda>r. f r = x) rows \<Longrightarrow> x \<in> f ` set rows"
  by (induction rows) auto

lemma choose_region_default_found:
  assumes "choose_region h rows None = Inr name"
  shows "find_region_rows h rows name \<noteq> None"
proof (cases "list_ex (\<lambda>r. region (h ! r) = ''dyn_run'') rows")
  case True
  with assms have "name = ''dyn_run''" by (simp add: choose_region_def)
  with True show ?thesis
    unfolding find_region_rows_None by (simp add: list_ex_image)
next
  case False
  with assms obtain r0 rest where "rows = r0 # rest" "name = region (h ! r0)"
    by (auto simp: choose_region_def split: list.splits)
  then show ?thesis by (simp add: find_region_rows_None)
qed

lemma choose_region_Inl:
  assumes "choose_region h rows r = Inl e"
  shows "rows = []"
  using assms by (auto simp: choose_region_def split: option.splits if_splits list.splits)

lemma examples_bounded:
  "length (examples h rows) \<le> 30"
proof -
  have "length (remdups (map (\<lambda>r. region (h ! r)) (take 30 rows)))
          \<le> length (map (\<lambda>r. region (h ! r)) (take 30 rows))"
    by (rule length_remdups_leq)
  then show ?thesis by (simp add: examples_def)
qed

lemma main_Inl:
  assumes "main a = Inl e"
  shows "(\<exists>msg. e = RuntimeError msg)
    \<or> (\<exists>base_rows h1 nm. parse_esmf_summary [] (summary a) = Inr (base_rows, h1)
          \<and> region_arg a = Some nm \<and> find_region_rows h1 base_rows nm = None
          \<and> e = SystemExit nm (examples h1 base_rows))"
proof (cases "parse_esmf_summary [] (summary a)")
  case (Inl e')
  with assms have "e = e'" by (simp add: main_def)
  with Inl show ?thesis using parse_Inl by blast
next
  case (Inr p)
  obtain base_rows h1 where p: "p = (base_rows, h1)" by (cases p)
  have ne: "base_rows \<noteq> []"
    using parse_Inr(2,3) [of "[]" "summary a" base_rows h1] parse_Inr(1) [of "[]" "summary a" base_rows h1]
      Inr p by auto
  show ?thesis
  proof (cases "choose_region h1 base_rows (region_arg a)")
    case (Inl e')
    then show ?thesis using choose_region_Inl ne by blast
  next
    case name: (Inr name)
    show ?thesis
    proof (cases "find_region_rows h1 base_rows name")
      case None
      have "region_arg a = Some name"
      proof (cases "region_arg a")
        case None
        with name have "find_region_rows h1 base_rows name \<noteq> None"
          using choose_region_default_found by simp
        with \<open>find_region_rows h1 base_rows name = None\<close> show ?thesis by simp
      next
        case (Some nm)
        with name show ?thesis by (simp add: choose_region_def)
      qed
      moreover have "e = SystemExit name (examples h1 base_rows)"
        using assms Inr p name None by (simp add: main_def)
      ultimately show ?thesis using Inr p None by blast
    next
      case (Some f)
      obtain parent pidx where f: "f = (parent, pidx)" by (cases f)
      have pidx: "pidx < length base_rows"
        using find_region_rows_Some [of h1 base_rows name parent pidx] Some f by simp
      then obtain cs where cs: "collect_children h1 base_rows pidx = Inr cs"
        by (simp add: collect_children_def)
      have "cs \<noteq> [] \<and> report a name h1 parent cs = Inl e"
        using assms Inr p name Some f cs by (auto simp: main_def split: if_splits)
      then show ?thesis using report_Inl by blast
    qed
  qed
qed

lemma insort_key_cong_on:
  assumes "f x = g x" "\<forall>y \<in> set ys. f y = g y"
  shows "insort_key f x ys = insort_key g x ys"
  using assms by (induction ys) auto

lemma sort_key_cong_on:
  assumes "\<forall>x \<in> set xs. f x = g x"
  shows "sort_key f xs = sort_key g xs"
  using assms
proof (induction xs)
  case Nil show ?case by simp
next
  case (Cons x xs)
  then have ih: "sort_key f xs = sort_key g xs" by simp
  have "insort_key f x (sort_key g xs) = insort_key g x (sort_key g xs)"
    using Cons.prems by (intro insort_key_cong_on) simp_all
  then show ?case by (simp add: ih)
qed

lemma rank_children_cong:
  assumes "\<forall>c \<in> set cs. Mean_s (h ! c) = Mean_s (h' ! c)"
  shows "rank_children h cs n = rank_children h' cs n"
proof -
  have "sort_key (\<lambda>r. Mean_s (h ! r)) (rev cs) = sort_key (\<lambda>r. Mean_s (h' ! r)) (rev cs)"
    using assms by (intro sort_key_cong_on) simp
  then show ?thesis by (simp add: rank_children_def py_sorted_reverse_def)
qed

lemma rank_children_subset: "set (rank_children h cs n) \<subseteq> set cs"
proof -
  have "set (slice_to xs n) \<subseteq> set xs" for xs :: "ref list"
    unfolding slice_to_def using set_take_subset [of _ xs] by simp
  then have "set (rank_children h cs n) \<subseteq> set (py_sorted_reverse (\<lambda>r. Mean_s (h ! r)) cs)"
    unfolding rank_children_def .
  then show ?thesis by (simp add: py_sorted_reverse_def)
qed

lemma load_optimized_warning:
  assumes l: "load_optimized h0 name (Some doc) = Inr (m, h', w)"
  shows "w = (if name \<in> region ` set (scan_lines (splitlines doc)) then []
             else [WarnRegionNotFound name])"
proof -
  from l obtain opt_rows where p: "parse_esmf_summary h0 doc = Inr (opt_rows, h')"
    and w: "w = (case find_region_rows h' opt_rows name of
                   None \<Rightarrow> [WarnRegionNotFound name] | Some _ \<Rightarrow> [])"
    by (auto simp: load_optimized_def split: sum.splits prod.splits)
  have h': "h' = h0 @ scan_lines (splitlines doc)"
    and rows: "opt_rows = [length h0 ..< length h']"
    using parse_Inr [OF p] by simp_all
  have "(\<lambda>r. region (h' ! r)) ` set opt_rows = region ` set (scan_lines (splitlines doc))"
  proof -
    have "map (\<lambda>r. h' ! r) opt_rows = scan_lines (splitlines doc)"
      unfolding rows h' by (intro nth_equalityI) (simp_all add: nth_append)
    then have "map region (map (\<lambda>r. h' ! r) opt_rows) = map region (scan_lines (splitlines doc))"
      by simp
    then have "set (map (\<lambda>r. region (h' ! r)) opt_rows)
                 = set (map region (scan_lines (splitlines doc)))"
      by (simp add: comp_def)
    then show ?thesis by simp
  qed
  then show ?thesis
    unfolding w using find_region_rows_None [of h' opt_rows name]
    by (cases "find_region_rows h' opt_rows name") auto
qed

lemma load_optimized_recognized:
  assumes "scan_lines (splitlines doc) \<noteq> []"
  shows "\<exists>m h' w. load_optimized h0 name (Some doc) = Inr (m, h', w)"
  using assms by (simp add: load_optimized_def parse_esmf_summary_def Let_def)

lemma report_loaded:
  assumes "load_optimized (set_shares (Mean_s (h1 ! parent)) cs h1) name (optimized_summary a)
             = Inr (opt_map, h3, w)"
  shows "\<exists>res. report a name h1 parent cs = Inr res
    \<and> exit_code res = 0
    \<and> final_heap res = h3
    \<and> take (Suc (length w)) (printed res)
        = w @ [Header name (Mean_s (h1 ! parent)) (top a) (optimized_summary a \<noteq> None)]
    \<and> labels res = map (\<lambda>r. region (h3 ! r))
        (rank_children (set_shares (Mean_s (h1 ! parent)) cs h1) cs (top a))
    \<and> map csv_region (csv_rows res) = labels res"
  using assms by (simp add: report_def Let_def row_out_of_def comp_def)

lemma optimized_absence_not_fatal:
  assumes p: "parse_esmf_summary [] (summary a) = Inr (base_rows, h1)"
    and r: "region_arg a = Some name"
    and f: "find_region_rows h1 base_rows name = Some (parent, pidx)"
    and c: "collect_children h1 base_rows pidx = Inr cs"
    and o: "optimized_summary a = Some doc"
    and rec: "scan_lines (splitlines doc) \<noteq> []"
    and abs: "name \<notin> region ` set (scan_lines (splitlines doc))"
  shows "\<exists>res. main a = Inr res \<and> exit_code res = 0
    \<and> (cs = []
        \<or> take 2 (printed res)
             = [WarnRegionNotFound name, Header name (Mean_s (h1 ! parent)) (top a) True]
          \<and> labels res = map (\<lambda>r. region (h1 ! r)) (rank_children h1 cs (top a))
          \<and> map csv_region (csv_rows res) = labels res)"
proof (cases "cs = []")
  case True
  then have "main a = Inr (no_children name h1)"
    using p r f c by (simp add: main_def choose_region_def)
  then show ?thesis using True by (simp add: no_children_def)
next
  case False
  define pmean where "pmean = Mean_s (h1 ! parent)"
  define h2 where "h2 = set_shares pmean cs h1"
  have m: "main a = report a name h1 parent cs"
    using p r f c False by (simp add: main_def choose_region_def)
  obtain opt_map h3 w where l: "load_optimized h2 name (Some doc) = Inr (opt_map, h3, w)"
    using load_optimized_recognized [OF rec] by blast
  have w: "w = [WarnRegionNotFound name]"
    using load_optimized_warning [OF l] abs by simp
  have h3: "h3 = h2 @ scan_lines (splitlines doc)"
    using load_optimized_heap [OF l] by simp
  have "load_optimized (set_shares (Mean_s (h1 ! parent)) cs h1) name (optimized_summary a)
          = Inr (opt_map, h3, w)"
    using l by (simp add: o h2_def pmean_def)
  from report_loaded [OF this] obtain res where res:
    "report a name h1 parent cs = Inr res" "exit_code res = 0"
    "take (Suc (length w)) (printed res)
        = w @ [Header name (Mean_s (h1 ! parent)) (top a) (optimized_summary a \<noteq> None)]"
    "labels res = map (\<lambda>r. region (h3 ! r)) (rank_children h2 cs (top a))"
    "map csv_region (csv_rows res) = labels res"
    unfolding h2_def pmean_def by blast
  have valid: "x < length h1" if "x \<in> set cs" for x
    using p c that by (rule main_children_valid)
  have same_mean: "\<forall>x \<in> set cs. Mean_s (h2 ! x) = Mean_s (h1 ! x)"
    using valid by (simp add: h2_def set_shares_nth)
  have rank: "rank_children h2 cs (top a) = rank_children h1 cs (top a)"
    using same_mean by (rule rank_children_cong)
  have same_region: "region (h3 ! x) = region (h1 ! x)" if "x \<in> set (rank_children h1 cs (top a))" for x
  proof -
    have "x \<in> set cs" using that rank_children_subset by blast
    then have "x < length h1" by (rule valid)
    then show ?thesis
      by (simp add: h3 h2_def nth_append set_shares_length set_shares_nth)
  qed
  have lab: "labels res = map (\<lambda>r. region (h1 ! r)) (rank_children h1 cs (top a))"
    unfolding res(4) rank using same_region by simp
  have pr: "take 2 (printed res)
             = [WarnRegionNotFound name, Header name (Mean_s (h1 ! parent)) (top a) True]"
    using res(3) by (simp add: w o numeral_2_eq_2)
  show ?thesis
    using m res(1,2,5) lab pr by simp
qed

text \<open>
  Claim C9, amended. \<open>find_region_rows\<close> returns the first record, with its position,
  whose name equals the requested one, and \<open>None\<close> exactly when no record has that name.
  A requested region that is absent from the baseline document is fatal: \<open>main\<close> ends
  with \<open>SystemExit\<close>, and the message carries the names of the first 30 records, sorted
  and without repetition. Absence from the optimized document is not fatal: the only
  errors of \<open>main\<close> are an unrecognized document and the region missing from the
  baseline; when the optimized document is recognized and lacks the region, \<open>main\<close>
  returns with exit code 0, and if the region has children it first prints a warning
  that carries no names and then reports every child of the ranking.
\<close>

theorem region_lookup:
  "(\<forall>r i. (find_region_rows h rows name = Some (r, i))
        = (i < length rows \<and> r = rows ! i \<and> region (h ! r) = name
           \<and> (\<forall>k < i. region (h ! (rows ! k)) \<noteq> name)))
   \<and> (find_region_rows h rows name = None) = (name \<notin> (\<lambda>r. region (h ! r)) ` set rows)
   \<and> (\<forall>base_rows h1.
        parse_esmf_summary [] (summary a) = Inr (base_rows, h1)
        \<and> region_arg a = Some name \<and> find_region_rows h1 base_rows name = None
        \<longrightarrow> main a = Inl (SystemExit name (examples h1 base_rows)))
   \<and> length (examples h rows) \<le> 30
   \<and> set (examples h rows) = (\<lambda>r. region (h ! r)) ` set (take 30 rows)
   \<and> sorted (examples h rows) \<and> distinct (examples h rows)
   \<and> (\<forall>e. main a = Inl e \<longrightarrow>
        (\<exists>msg. e = RuntimeError msg)
        \<or> (\<exists>base_rows h1 nm. parse_esmf_summary [] (summary a) = Inr (base_rows, h1)
              \<and> region_arg a = Some nm \<and> find_region_rows h1 base_rows nm = None
              \<and> e = SystemExit nm (examples h1 base_rows)))
   \<and> (\<forall>h0 text m h' w. load_optimized h0 name (Some text) = Inr (m, h', w) \<longrightarrow>
        w = (if name \<in> region ` set (scan_lines (splitlines text)) then []
             else [WarnRegionNotFound name]))
   \<and> (\<forall>base_rows h1 parent pidx cs doc.
        parse_esmf_summary [] (summary a) = Inr (base_rows, h1)
        \<and> region_arg a = Some name
        \<and> find_region_rows h1 base_rows name = Some (parent, pidx)
        \<and> collect_children h1 base_rows pidx = Inr cs
        \<and> optimized_summary a = Some doc
        \<and> scan_lines (splitlines doc) \<noteq> []
        \<and> name \<notin> region ` set (scan_lines (splitlines doc))
        \<longrightarrow> (\<exists>res. main a = Inr res \<and> exit_code res = 0
              \<and> (cs = []
                  \<or> take 2 (printed res)
                       = [WarnRegionNotFound name,
                          Header name (Mean_s (h1 ! parent)) (top a) True]
                    \<and> labels res
                       = map (\<lambda>r. region (h1 ! r)) (rank_children h1 cs (top a))
                    \<and> map csv_region (csv_rows res) = labels res)))"
proof -
  have first: "(find_region_rows h rows name = Some (r, i))
        = (i < length rows \<and> r = rows ! i \<and> region (h ! r) = name
           \<and> (\<forall>k < i. region (h ! (rows ! k)) \<noteq> name))" for r i
  proof
    assume "find_region_rows h rows name = Some (r, i)"
    then show "i < length rows \<and> r = rows ! i \<and> region (h ! r) = name
           \<and> (\<forall>k < i. region (h ! (rows ! k)) \<noteq> name)"
      by (rule find_region_rows_Some)
  next
    assume A: "i < length rows \<and> r = rows ! i \<and> region (h ! r) = name
           \<and> (\<forall>k < i. region (h ! (rows ! k)) \<noteq> name)"
    then have 1: "i < length rows" and 2: "r = rows ! i"
      and 4: "\<forall>k < i. region (h ! (rows ! k)) \<noteq> name"
      by blast+
    from A have 3: "region (h ! (rows ! i)) = name" by blast
    have "find_from h name 0 rows = Some (rows ! i, 0 + i)"
      using 1 3 4 by (rule find_from_first)
    then show "find_region_rows h rows name = Some (r, i)"
      unfolding find_region_rows_def 2 by simp
  qed
  have fatal: "main a = Inl (SystemExit name (examples h1 base_rows))"
    if "parse_esmf_summary [] (summary a) = Inr (base_rows, h1)
        \<and> region_arg a = Some name \<and> find_region_rows h1 base_rows name = None"
    for base_rows h1
    using that by (simp add: main_def choose_region_def)
  have ex_set: "set (examples h rows) = (\<lambda>r. region (h ! r)) ` set (take 30 rows)"
    by (simp add: examples_def)
  have ex_sorted: "sorted (examples h rows)" "distinct (examples h rows)"
    by (simp_all add: examples_def)
  have c1: "\<forall>r i. (find_region_rows h rows name = Some (r, i))
        = (i < length rows \<and> r = rows ! i \<and> region (h ! r) = name
           \<and> (\<forall>k < i. region (h ! (rows ! k)) \<noteq> name))"
    using first by (intro allI)
  have c2: "(find_region_rows h rows name = None) = (name \<notin> (\<lambda>r. region (h ! r)) ` set rows)"
    by (rule find_region_rows_None)
  have c3: "\<forall>base_rows h1.
        parse_esmf_summary [] (summary a) = Inr (base_rows, h1)
        \<and> region_arg a = Some name \<and> find_region_rows h1 base_rows name = None
        \<longrightarrow> main a = Inl (SystemExit name (examples h1 base_rows))"
    using fatal by (intro allI impI)
  have c4: "length (examples h rows) \<le> 30" by (rule examples_bounded)
  have c8: "\<forall>e. main a = Inl e \<longrightarrow>
        (\<exists>msg. e = RuntimeError msg)
        \<or> (\<exists>base_rows h1 nm. parse_esmf_summary [] (summary a) = Inr (base_rows, h1)
              \<and> region_arg a = Some nm \<and> find_region_rows h1 base_rows nm = None
              \<and> e = SystemExit nm (examples h1 base_rows))"
    using main_Inl [of a] by (intro allI impI)
  have c9: "\<forall>h0 doc m h' w. load_optimized h0 name (Some doc) = Inr (m, h', w) \<longrightarrow>
        w = (if name \<in> region ` set (scan_lines (splitlines doc)) then []
             else [WarnRegionNotFound name])"
    using load_optimized_warning by (intro allI impI)
  have c10: "\<forall>base_rows h1 parent pidx cs doc.
        parse_esmf_summary [] (summary a) = Inr (base_rows, h1)
        \<and> region_arg a = Some name
        \<and> find_region_rows h1 base_rows name = Some (parent, pidx)
        \<and> collect_children h1 base_rows pidx = Inr cs
        \<and> optimized_summary a = Some doc
        \<and> scan_lines (splitlines doc) \<noteq> []
        \<and> name \<notin> region ` set (scan_lines (splitlines doc))
        \<longrightarrow> (\<exists>res. main a = Inr res \<and> exit_code res = 0
              \<and> (cs = []
                  \<or> take 2 (printed res)
                       = [WarnRegionNotFound name,
                          Header name (Mean_s (h1 ! parent)) (top a) True]
                    \<and> labels res
                       = map (\<lambda>r. region (h1 ! r)) (rank_children h1 cs (top a))
                    \<and> map csv_region (csv_rows res) = labels res))"
  proof (intro allI impI)
    fix base_rows h1 parent pidx cs doc
    assume A: "parse_esmf_summary [] (summary a) = Inr (base_rows, h1)
        \<and> region_arg a = Some name
        \<and> find_region_rows h1 base_rows name = Some (parent, pidx)
        \<and> collect_children h1 base_rows pidx = Inr cs
        \<and> optimized_summary a = Some doc
        \<and> scan_lines (splitlines doc) \<noteq> []
        \<and> name \<notin> region ` set (scan_lines (splitlines doc))"
    show "\<exists>res. main a = Inr res \<and> exit_code res = 0
              \<and> (cs = []
                  \<or> take 2 (printed res)
                       = [WarnRegionNotFound name,
                          Header name (Mean_s (h1 ! parent)) (top a) True]
                    \<and> labels res
                       = map (\<lambda>r. region (h1 ! r)) (rank_children h1 cs (top a))
                    \<and> map csv_region (csv_rows res) = labels res)"
      by (rule optimized_absence_not_fatal [of a base_rows h1 name parent pidx cs doc])
        (use A in blast)+
  qed
  show ?thesis
    by (intro conjI c1 c2 c3 c4 ex_set ex_sorted c8 c9 c10)
qed

text \<open>The region \<open>A\<close> is not in the second sample, and the run is not fatal: it ends with
  exit code 0, prints the warning, which names no region of the document, and still
  reports the three children.\<close>

theorem missing_in_optimized_only_warns:
  "''A'' \<notin> region ` set (scan_lines (splitlines sample_other))
   \<and> \<not> isl (main \<lparr>summary = sample_baseline, region_arg = Some ''A'', top = 12,
               csv = None, png = None, optimized_summary = Some sample_other\<rparr>)
   \<and> exit_code (projr (main \<lparr>summary = sample_baseline, region_arg = Some ''A'', top = 12,
        csv = None, png = None, optimized_summary = Some sample_other\<rparr>)) = 0
   \<and> take 2 (printed (projr (main \<lparr>summary = sample_baseline, region_arg = Some ''A'',
        top = 12, csv = None, png = None, optimized_summary = Some sample_other\<rparr>)))
       = [WarnRegionNotFound ''A'', Header ''A'' 10 12 True]
   \<and> labels (projr (main \<lparr>summary = sample_baseline, region_arg = Some ''A'', top = 12,
        csv = None, png = None, optimized_summary = Some sample_other\<rparr>))
       = [''C'', ''B'', ''E'']"
  by code_simp

text \<open>The region \<open>Z\<close> is not in the baseline sample: the run ends with \<open>SystemExit\<close> and
  the five names of the document. The region \<open>A\<close> is in the baseline sample, at position
  0 with three children, and not in the second sample, which is a recognized document:
  the run returns, with the warning in front of the header.\<close>

theorem region_lookup_witness:
  "parse_esmf_summary [] sample_baseline
     = Inr (fst (projr (parse_esmf_summary [] sample_baseline)),
            snd (projr (parse_esmf_summary [] sample_baseline)))
   \<and> find_region_rows (snd (projr (parse_esmf_summary [] sample_baseline)))
        (fst (projr (parse_esmf_summary [] sample_baseline))) ''Z'' = None
   \<and> find_region_rows (snd (projr (parse_esmf_summary [] sample_baseline)))
        (fst (projr (parse_esmf_summary [] sample_baseline))) ''C'' = Some (2, 2)
   \<and> examples (snd (projr (parse_esmf_summary [] sample_baseline)))
        (fst (projr (parse_esmf_summary [] sample_baseline)))
       = [''A'', ''B'', ''C'', ''D'', ''E'']
   \<and> main \<lparr>summary = sample_baseline, region_arg = Some ''Z'', top = 12, csv = None,
        png = None, optimized_summary = None\<rparr>
       = Inl (SystemExit ''Z'' (examples (snd (projr (parse_esmf_summary [] sample_baseline)))
                (fst (projr (parse_esmf_summary [] sample_baseline)))))
   \<and> find_region_rows (snd (projr (parse_esmf_summary [] sample_baseline)))
        (fst (projr (parse_esmf_summary [] sample_baseline))) ''A'' = Some (0, 0)
   \<and> collect_children (snd (projr (parse_esmf_summary [] sample_baseline)))
        (fst (projr (parse_esmf_summary [] sample_baseline))) 0 = Inr [1, 2, 3]
   \<and> scan_lines (splitlines sample_other) \<noteq> []
   \<and> ''A'' \<notin> region ` set (scan_lines (splitlines sample_other))
   \<and> (\<exists>res. main \<lparr>summary = sample_baseline, region_arg = Some ''A'', top = 12,
               csv = None, png = None, optimized_summary = Some sample_other\<rparr> = Inr res
         \<and> exit_code res = 0
         \<and> take 2 (printed res)
             = [WarnRegionNotFound ''A'',
                Header ''A'' (Mean_s (snd (projr (parse_esmf_summary [] sample_baseline)) ! 0))
                  12 True]
         \<and> map csv_region (csv_rows res) = labels res)"
proof -
  define a where "a = \<lparr>summary = sample_baseline, region_arg = Some ''Z'', top = 12,
    csv = None, png = None, optimized_summary = None\<rparr>"
  define a2 where "a2 = \<lparr>summary = sample_baseline, region_arg = Some ''A'', top = 12,
    csv = None, png = None, optimized_summary = Some sample_other\<rparr>"
  define base_rows where "base_rows = fst (projr (parse_esmf_summary [] sample_baseline))"
  define h1 where "h1 = snd (projr (parse_esmf_summary [] sample_baseline))"
  have "\<not> isl (parse_esmf_summary [] sample_baseline)" by code_simp
  then have p: "parse_esmf_summary [] sample_baseline = Inr (base_rows, h1)"
    by (simp add: base_rows_def h1_def)
  have none: "find_region_rows h1 base_rows ''Z'' = None"
    unfolding base_rows_def h1_def by code_simp
  have some: "find_region_rows h1 base_rows ''C'' = Some (2, 2)"
    unfolding base_rows_def h1_def by code_simp
  have ex: "examples h1 base_rows = [''A'', ''B'', ''C'', ''D'', ''E'']"
    unfolding base_rows_def h1_def by code_simp
  have hyp: "parse_esmf_summary [] (summary a) = Inr (base_rows, h1)
        \<and> region_arg a = Some ''Z'' \<and> find_region_rows h1 base_rows ''Z'' = None"
    using p none by (simp add: a_def)
  have "\<forall>base_rows h1.
        parse_esmf_summary [] (summary a) = Inr (base_rows, h1)
        \<and> region_arg a = Some ''Z'' \<and> find_region_rows h1 base_rows ''Z'' = None
        \<longrightarrow> main a = Inl (SystemExit ''Z'' (examples h1 base_rows))"
    using region_lookup [of h1 base_rows "''Z''" a] by blast
  with hyp have fatal: "main a = Inl (SystemExit ''Z'' (examples h1 base_rows))" by blast
  have found: "find_region_rows h1 base_rows ''A'' = Some (0, 0)"
    unfolding base_rows_def h1_def by code_simp
  have kids: "collect_children h1 base_rows 0 = Inr [1, 2, 3]"
    unfolding base_rows_def h1_def by code_simp
  have rec: "scan_lines (splitlines sample_other) \<noteq> []" by code_simp
  have abs: "''A'' \<notin> region ` set (scan_lines (splitlines sample_other))" by code_simp
  have hyp2: "parse_esmf_summary [] (summary a2) = Inr (base_rows, h1)
        \<and> region_arg a2 = Some ''A''
        \<and> find_region_rows h1 base_rows ''A'' = Some (0, 0)
        \<and> collect_children h1 base_rows 0 = Inr [1, 2, 3]
        \<and> optimized_summary a2 = Some sample_other
        \<and> scan_lines (splitlines sample_other) \<noteq> []
        \<and> ''A'' \<notin> region ` set (scan_lines (splitlines sample_other))"
    using p found kids rec abs by (simp add: a2_def)
  have "\<forall>base_rows h1 parent pidx cs doc.
        parse_esmf_summary [] (summary a2) = Inr (base_rows, h1)
        \<and> region_arg a2 = Some ''A''
        \<and> find_region_rows h1 base_rows ''A'' = Some (parent, pidx)
        \<and> collect_children h1 base_rows pidx = Inr cs
        \<and> optimized_summary a2 = Some doc
        \<and> scan_lines (splitlines doc) \<noteq> []
        \<and> ''A'' \<notin> region ` set (scan_lines (splitlines doc))
        \<longrightarrow> (\<exists>res. main a2 = Inr res \<and> exit_code res = 0
              \<and> (cs = []
                  \<or> take 2 (printed res)
                       = [WarnRegionNotFound ''A'',
                          Header ''A'' (Mean_s (h1 ! parent)) (top a2) True]
                    \<and> labels res
                       = map (\<lambda>r. region (h1 ! r)) (rank_children h1 cs (top a2))
                    \<and> map csv_region (csv_rows res) = labels res))"
    using region_lookup [of h1 base_rows "''A''" a2] by blast
  with hyp2 have "\<exists>res. main a2 = Inr res \<and> exit_code res = 0
              \<and> ([1, 2, 3 :: nat] = []
                  \<or> take 2 (printed res)
                       = [WarnRegionNotFound ''A'',
                          Header ''A'' (Mean_s (h1 ! 0)) (top a2) True]
                    \<and> labels res
                       = map (\<lambda>r. region (h1 ! r)) (rank_children h1 [1, 2, 3] (top a2))
                    \<and> map csv_region (csv_rows res) = labels res)"
    by blast
  then have run: "\<exists>res. main a2 = Inr res \<and> exit_code res = 0
         \<and> take 2 (printed res)
             = [WarnRegionNotFound ''A'', Header ''A'' (Mean_s (h1 ! 0)) 12 True]
         \<and> map csv_region (csv_rows res) = labels res"
    by (auto simp: a2_def)
  from p none some ex fatal found kids rec abs run show ?thesis
    unfolding a_def a2_def base_rows_def h1_def by (intro conjI)
qed

subsection \<open>Unrecognized documents\<close>

lemma scan_lines_empty_iff:
  "(scan_lines ls = []) = (\<forall>line \<in> set ls. pat_match line = None)"
  by (induction ls) (auto split: option.splits)

lemma scan_lines_matched:
  "scan_lines ls = map (\<lambda>l. mk_row (the (pat_match l))) (filter (\<lambda>l. pat_match l \<noteq> None) ls)"
  by (induction ls) (auto split: option.splits)

lemma t_scan_lines_empty_iff:
  "(t_scan_lines ls = []) = (\<forall>line \<in> set ls. pat_match line = None)"
  by (induction ls) (auto split: option.splits)

text \<open>The parser of run-cam/timing.py does what claim C1 says: it fails, with the one
  \<open>RuntimeError\<close>, exactly when no line matches, and otherwise returns the records of
  the matching lines in line order.\<close>

lemma parse_esmf_summary_fails_iff:
  "isl (parse_esmf_summary h text) = (\<forall>line \<in> set (splitlines text). pat_match line = None)"
  unfolding parse_esmf_summary_def Let_def
  using scan_lines_empty_iff [of "splitlines text"] by simp

lemma parse_esmf_summary_returns_matched:
  assumes "parse_esmf_summary h text = Inr (rows, h')"
  shows "map (\<lambda>r. h' ! r) rows
    = map (\<lambda>l. mk_row (the (pat_match l))) (filter (\<lambda>l. pat_match l \<noteq> None) (splitlines text))"
proof -
  have h': "h' = h @ scan_lines (splitlines text)" and rows: "rows = [length h ..< length h']"
    using parse_Inr [OF assms] by simp_all
  have "map (\<lambda>r. h' ! r) rows = scan_lines (splitlines text)"
    unfolding rows h' by (intro nth_equalityI) (simp_all add: nth_append)
  then show ?thesis by (simp only: scan_lines_matched)
qed

text \<open>The parser of timing/timing.py never fails; on a text without a matching line it
  returns the empty list.\<close>

lemma t_parse_esmf_summary_empty_iff:
  "(t_parse_esmf_summary text = []) = (\<forall>line \<in> set (splitlines text). pat_match line = None)"
  unfolding t_parse_esmf_summary_def by (rule t_scan_lines_empty_iff)

text \<open>
  Claim C1, at a text in which no line matches the pattern. The parser of
  run-cam/timing.py fails with its \<open>RuntimeError\<close>, as the claim says. The parser of
  timing/timing.py returns the empty list instead of failing: given as the baseline,
  the text then makes \<open>t_main\<close> stop at the first timer with a \<open>KeyError\<close>, and given as
  the optimized document it is taken for no document at all.
\<close>

theorem t_parse_accepts_unrecognized:
  "scan_lines (splitlines sample_unrecognized) = []
   \<and> parse_esmf_summary [] sample_unrecognized
       = Inl (RuntimeError ''No Region rows parsed. Is this an ESMF_Profile.summary file?'')
   \<and> t_parse_esmf_summary sample_unrecognized = []
   \<and> t_main \<lparr>baseline = sample_unrecognized, t_optimized_summary = None, timers = [''A''],
        timers_names_on_plot = None, annotate_threshold = 5\<rparr> = Inl (KeyError ''A'')
   \<and> t_main \<lparr>baseline = sample_baseline, t_optimized_summary = Some sample_unrecognized,
        timers = [''B''], timers_names_on_plot = None, annotate_threshold = 5\<rparr>
       = Inr \<lparr>t_labels = [''B''], t_base_means = [6], t_base_lows = [1], t_base_highs = [1],
              t_opt_means = None, t_annotations = []\<rparr>"
  by code_simp

subsection \<open>Alignment by name\<close>

text \<open>In run-cam/timing.py every selected child gets its CSV row and its entry in
  \<open>opt_means\<close>, with or without a counterpart.\<close>

lemma main_reports_every_selected_child:
  assumes "main a = Inr res"
  shows "length (csv_rows res) = length (labels res)
    \<and> length (opt_means res) = length (labels res)
    \<and> map csv_region (csv_rows res) = labels res"
proof -
  from assms obtain name h1 parent cs where
    m: "cs = [] \<and> res = no_children name h1 \<or> cs \<noteq> [] \<and> report a name h1 parent cs = Inr res"
    by (rule main_Inr)
  from m show ?thesis
  proof
    assume "cs = [] \<and> res = no_children name h1"
    then show ?thesis by (simp add: no_children_def)
  next
    assume "cs \<noteq> [] \<and> report a name h1 parent cs = Inr res"
    then have "report a name h1 parent cs = Inr res" by simp
    then obtain opt_map h3 sel where
      "csv_rows res = map (row_out_of h3 (optimized_summary a \<noteq> None) opt_map) sel"
      "labels res = map (\<lambda>r. region (h3 ! r)) sel"
      "opt_means res = map (opt_mean_of h3 (optimized_summary a \<noteq> None) opt_map) sel"
      by (rule report_Inr) blast
    then show ?thesis by (simp add: row_out_of_def comp_def)
  qed
qed

text \<open>
  Claim C2, at a list of timers of which \<open>C\<close> is in the baseline and not in the optimized
  document. timing/timing.py reads \<^verbatim>\<open>opt_data[r]\<close> for every timer and stops with
  \<open>KeyError\<close>: no row is produced for any timer. On the same two documents
  run-cam/timing.py reports \<open>C\<close> with empty optimized columns next to \<open>B\<close> and \<open>E\<close>.
\<close>

theorem t_main_missing_counterpart_raises:
  "t_main \<lparr>baseline = sample_baseline, t_optimized_summary = Some sample_optimized,
        timers = [''B'', ''C''], timers_names_on_plot = None, annotate_threshold = 5\<rparr>
     = Inl (KeyError ''C'')
   \<and> \<not> isl (main \<lparr>summary = sample_baseline, region_arg = Some ''A'', top = 12, csv = None,
        png = None, optimized_summary = Some sample_optimized\<rparr>)
   \<and> map csv_region (csv_rows (projr (main \<lparr>summary = sample_baseline, region_arg = Some ''A'',
        top = 12, csv = None, png = None, optimized_summary = Some sample_optimized\<rparr>)))
       = [''C'', ''B'', ''E'']
   \<and> map (map_option optimized_mean_s \<circ> optimized)
        (csv_rows (projr (main \<lparr>summary = sample_baseline, region_arg = Some ''A'',
           top = 12, csv = None, png = None, optimized_summary = Some sample_optimized\<rparr>)))
       = [None, Some 3, Some 0]
   \<and> opt_means (projr (main \<lparr>summary = sample_baseline, region_arg = Some ''A'',
        top = 12, csv = None, png = None, optimized_summary = Some sample_optimized\<rparr>))
       = [None, Some 3, Some 0]"
  by code_simp

subsection \<open>Labels\<close>

lemma pct_sign:
  fixes base opt :: real
  assumes "0 < base"
  shows "(0 < 100 * (base - opt) / base) = (opt < base)"
    and "(100 * (base - opt) / base < 0) = (base < opt)"
    and "(100 * (base - opt) / base = 0) = (opt = base)"
  using assms by (auto simp add: zero_less_divide_iff divide_less_0_iff)

text \<open>
  Claim C7, amended. For a positive baseline time, a positive optimized time and a
  positive threshold, timing/timing.py attaches a label if and only if the absolute
  percentage delta \<open>100 * (base - opt) / base\<close> is at least the threshold; the label is
  the absolute delta with \<open>faster\<close> exactly when the optimized time is the smaller one
  and with \<open>slower\<close> exactly when it is the larger one, and equal times get no label.
  run-cam/timing.py does the same with its fixed threshold of 5, for a positive baseline
  time and any optimized time of a counterpart; a child without counterpart gets no
  label.
\<close>

theorem label_iff_threshold:
  "(0 < base \<and> 0 < opt \<and> 0 < threshold \<longrightarrow>
      (t_annotate threshold base opt \<noteq> None) = (\<bar>100 * (base - opt) / base\<bar> \<ge> threshold)
    \<and> (t_annotate threshold base opt = Some (\<bar>100 * (base - opt) / base\<bar>, faster))
        = (\<bar>100 * (base - opt) / base\<bar> \<ge> threshold \<and> opt < base)
    \<and> (t_annotate threshold base opt = Some (\<bar>100 * (base - opt) / base\<bar>, slower))
        = (\<bar>100 * (base - opt) / base\<bar> \<ge> threshold \<and> base < opt)
    \<and> (\<forall>p d. t_annotate threshold base opt = Some (p, d) \<longrightarrow> p = \<bar>100 * (base - opt) / base\<bar>)
    \<and> (opt = base \<longrightarrow> t_annotate threshold base opt = None))
   \<and> (0 < base \<longrightarrow>
      (annotate base (Some opt) \<noteq> None) = (\<bar>100 * (base - opt) / base\<bar> \<ge> 5)
    \<and> (annotate base (Some opt) = Some (\<bar>100 * (base - opt) / base\<bar>, faster))
        = (\<bar>100 * (base - opt) / base\<bar> \<ge> 5 \<and> opt < base)
    \<and> (annotate base (Some opt) = Some (\<bar>100 * (base - opt) / base\<bar>, slower))
        = (\<bar>100 * (base - opt) / base\<bar> \<ge> 5 \<and> base < opt)
    \<and> (\<forall>p d. annotate base (Some opt) = Some (p, d) \<longrightarrow> p = \<bar>100 * (base - opt) / base\<bar>)
    \<and> (opt = base \<longrightarrow> annotate base (Some opt) = None))
   \<and> annotate base None = None"
proof -
  define pct where "pct = 100 * (base - opt) / base"
  have t: "t_annotate threshold base opt
      = (if \<bar>pct\<bar> \<ge> threshold then Some (\<bar>pct\<bar>, if pct > 0 then faster else slower) else None)"
    if "0 < base" "0 < opt"
    using that by (simp add: t_annotate_def Let_def pct_def)
  have r: "annotate base (Some opt)
      = (if \<bar>pct\<bar> \<ge> 5 then Some (\<bar>pct\<bar>, if pct > 0 then faster else slower) else None)"
    if "0 < base"
  proof -
    have eq: "(base - opt) / base * 100 = pct" by (simp add: pct_def)
    have "annotate base (Some opt)
      = (if base \<noteq> 0 \<and> base > 0
         then (if \<bar>pct\<bar> \<ge> 5 then Some (\<bar>pct\<bar>, if pct > 0 then faster else slower) else None)
         else None)"
      by (simp only: annotate_def Let_def option.case eq ANNOTATE_THRESHOLD_PCT_def)
    then show ?thesis using that by simp
  qed
  have pos: "(pct > 0) = (opt < base)" and neg: "(pct < 0) = (base < opt)"
    and zero: "(pct = 0) = (opt = base)" if "0 < base"
    using pct_sign [OF that, of opt] by (simp_all add: pct_def)
  have generic: "(lab \<noteq> None) = (\<bar>pct\<bar> \<ge> th)
    \<and> (lab = Some (\<bar>pct\<bar>, faster)) = (\<bar>pct\<bar> \<ge> th \<and> opt < base)
    \<and> (lab = Some (\<bar>pct\<bar>, slower)) = (\<bar>pct\<bar> \<ge> th \<and> base < opt)
    \<and> (\<forall>p d. lab = Some (p, d) \<longrightarrow> p = \<bar>pct\<bar>)
    \<and> (opt = base \<longrightarrow> lab = None)"
    if b: "0 < base" and th: "0 < th"
      and lab: "lab = (if \<bar>pct\<bar> \<ge> th then Some (\<bar>pct\<bar>, if pct > 0 then faster else slower) else None)"
    for lab :: "(real \<times> direction) option" and th :: real
  proof (cases "\<bar>pct\<bar> \<ge> th")
    case False
    then have "lab = None" by (simp add: lab)
    moreover have "opt = base \<longrightarrow> True" by simp
    ultimately show ?thesis using False by simp
  next
    case True
    then have nz: "pct \<noteq> 0" using th by auto
    then have ne: "opt \<noteq> base" using zero [OF b] by simp
    show ?thesis
    proof (cases "pct > 0")
      case pt: True
      then have "lab = Some (\<bar>pct\<bar>, faster)" using True by (simp add: lab)
      moreover have "opt < base" using pt pos [OF b] by simp
      ultimately show ?thesis using True ne by auto
    next
      case pf: False
      then have "lab = Some (\<bar>pct\<bar>, slower)" using True by (simp add: lab)
      moreover have "base < opt" using pf nz neg [OF b] by simp
      ultimately show ?thesis using True ne by auto
    qed
  qed
  have part1: "0 < base \<and> 0 < opt \<and> 0 < threshold \<longrightarrow>
      (t_annotate threshold base opt \<noteq> None) = (\<bar>pct\<bar> \<ge> threshold)
    \<and> (t_annotate threshold base opt = Some (\<bar>pct\<bar>, faster)) = (\<bar>pct\<bar> \<ge> threshold \<and> opt < base)
    \<and> (t_annotate threshold base opt = Some (\<bar>pct\<bar>, slower)) = (\<bar>pct\<bar> \<ge> threshold \<and> base < opt)
    \<and> (\<forall>p d. t_annotate threshold base opt = Some (p, d) \<longrightarrow> p = \<bar>pct\<bar>)
    \<and> (opt = base \<longrightarrow> t_annotate threshold base opt = None)"
  proof
    assume a: "0 < base \<and> 0 < opt \<and> 0 < threshold"
    then have "t_annotate threshold base opt
      = (if \<bar>pct\<bar> \<ge> threshold then Some (\<bar>pct\<bar>, if pct > 0 then faster else slower) else None)"
      using t by blast
    with a show "(t_annotate threshold base opt \<noteq> None) = (\<bar>pct\<bar> \<ge> threshold)
    \<and> (t_annotate threshold base opt = Some (\<bar>pct\<bar>, faster)) = (\<bar>pct\<bar> \<ge> threshold \<and> opt < base)
    \<and> (t_annotate threshold base opt = Some (\<bar>pct\<bar>, slower)) = (\<bar>pct\<bar> \<ge> threshold \<and> base < opt)
    \<and> (\<forall>p d. t_annotate threshold base opt = Some (p, d) \<longrightarrow> p = \<bar>pct\<bar>)
    \<and> (opt = base \<longrightarrow> t_annotate threshold base opt = None)"
      by (intro generic) blast+
  qed
  have part2: "0 < base \<longrightarrow>
      (annotate base (Some opt) \<noteq> None) = (\<bar>pct\<bar> \<ge> 5)
    \<and> (annotate base (Some opt) = Some (\<bar>pct\<bar>, faster)) = (\<bar>pct\<bar> \<ge> 5 \<and> opt < base)
    \<and> (annotate base (Some opt) = Some (\<bar>pct\<bar>, slower)) = (\<bar>pct\<bar> \<ge> 5 \<and> base < opt)
    \<and> (\<forall>p d. annotate base (Some opt) = Some (p, d) \<longrightarrow> p = \<bar>pct\<bar>)
    \<and> (opt = base \<longrightarrow> annotate base (Some opt) = None)"
  proof
    assume a: "0 < base"
    then have "annotate base (Some opt)
      = (if \<bar>pct\<bar> \<ge> 5 then Some (\<bar>pct\<bar>, if pct > 0 then faster else slower) else None)"
      by (rule r)
    with a show "(annotate base (Some opt) \<noteq> None) = (\<bar>pct\<bar> \<ge> 5)
    \<and> (annotate base (Some opt) = Some (\<bar>pct\<bar>, faster)) = (\<bar>pct\<bar> \<ge> 5 \<and> opt < base)
    \<and> (annotate base (Some opt) = Some (\<bar>pct\<bar>, slower)) = (\<bar>pct\<bar> \<ge> 5 \<and> base < opt)
    \<and> (\<forall>p d. annotate base (Some opt) = Some (p, d) \<longrightarrow> p = \<bar>pct\<bar>)
    \<and> (opt = base \<longrightarrow> annotate base (Some opt) = None)"
      by (intro generic) simp_all
  qed
  have part3: "annotate base None = None" by (simp add: annotate_def)
  from part1 part2 part3 show ?thesis unfolding pct_def by (intro conjI)
qed

text \<open>The claim as stated, for every pair of times and every threshold. Timer \<open>E\<close> of the
  samples took 2 seconds in the baseline and 0 in the optimized run: the delta is 100
  percent, above the threshold 5, and timing/timing.py attaches no label, because it
  labels only positive optimized times. With the threshold 0, two equal times get the
  label \<open>slower\<close> for a delta of exactly zero.\<close>

theorem zero_optimized_time_unlabelled:
  "(5::real) \<le> \<bar>100 * (2 - 0) / 2\<bar>
   \<and> t_annotate 5 2 0 = None
   \<and> t_main \<lparr>baseline = sample_baseline, t_optimized_summary = Some sample_optimized,
        timers = [''B'', ''E''], timers_names_on_plot = None, annotate_threshold = 5\<rparr>
       = Inr \<lparr>t_labels = [''B'', ''E''], t_base_means = [6, 2], t_base_lows = [1, 0],
              t_base_highs = [1, 0], t_opt_means = Some [3, 0],
              t_annotations = [(0, 50, faster)]\<rparr>
   \<and> t_annotate 0 2 2 = Some (0, slower)"
proof -
  have 1: "(5::real) \<le> \<bar>100 * (2 - 0) / 2\<bar>" by simp
  have 2: "t_annotate 5 2 0 = None" by (simp add: t_annotate_def)
  have 3: "t_main \<lparr>baseline = sample_baseline, t_optimized_summary = Some sample_optimized,
        timers = [''B'', ''E''], timers_names_on_plot = None, annotate_threshold = 5\<rparr>
       = Inr \<lparr>t_labels = [''B'', ''E''], t_base_means = [6, 2], t_base_lows = [1, 0],
              t_base_highs = [1, 0], t_opt_means = Some [3, 0],
              t_annotations = [(0, 50, faster)]\<rparr>"
    by code_simp
  have 4: "t_annotate 0 2 2 = Some (0, slower)" by (simp add: t_annotate_def)
  from 1 2 3 4 show ?thesis by (intro conjI)
qed

text \<open>The spec's examples: 10.0 against 9.0 seconds is labelled ``10.0 percent faster'',
  10.0 against 9.7 seconds is a delta of 3 percent and gets no label.\<close>

theorem label_iff_threshold_witness:
  "(0::real) < 10 \<and> (0::real) < 9 \<and> (0::real) < 5
   \<and> t_annotate 5 10 9 = Some (10, faster)
   \<and> annotate 10 (Some 9) = Some (10, faster)
   \<and> t_annotate 5 10 (97 / 10) = None"
proof -
  have h1: "(0::real) < 10 \<and> (0::real) < 9 \<and> (0::real) < 5" by simp
  have h2: "(0::real) < 10 \<and> (0::real) < 97 / 10 \<and> (0::real) < 5" by simp
  have p1: "\<bar>100 * (10 - 9) / 10\<bar> = (10::real)" by simp
  have g1: "\<bar>100 * (10 - 9) / 10\<bar> \<ge> (5::real) \<and> (9::real) < 10" by simp
  have g2: "\<not> \<bar>100 * (10 - 97 / 10) / 10\<bar> \<ge> (5::real)" by simp
  have a: "t_annotate 5 10 9 = Some (\<bar>100 * (10 - 9) / 10\<bar>, faster)"
    using label_iff_threshold [of 10 9 5] h1 g1 by blast
  have b: "annotate 10 (Some 9) = Some (\<bar>100 * (10 - 9) / 10\<bar>, faster)"
    using label_iff_threshold [of 10 9 5] h1 g1 by blast
  have c: "t_annotate 5 10 (97 / 10) = None"
    using label_iff_threshold [of 10 "97 / 10" 5] h2 g2 by blast
  from h1 a b c show ?thesis unfolding p1 by (intro conjI) blast+
qed

end
